theory Spec2Isabelle
  imports Main "HOL-Library.List_Lexorder" "HOL-Library.Product_Lexorder" "HOL-Library.Multiset"
begin

section \<open>Python values\<close>

text \<open>
  A Python \<open>str\<close> is a sequence of Unicode code points. Tags go through
  \<open>unicodedata.normalize\<close>, so code points beyond one byte matter and a string is a list
  of code points. \<open>u\<close> reads an ASCII literal as such a string.
\<close>

type_synonym ustr = "nat list"

definition u :: "string \<Rightarrow> ustr" where
  "u s = map of_char s"

text \<open>
  The exceptions the modelled code raises. \<open>NotModelled\<close> is not a Python exception:
  it marks the one place where the model stops short of Python (sorting by list-valued
  keys, which Python may or may not be able to order).
\<close>

datatype error = KeyError string | TypeError | AttributeError | NotModelled

text \<open>\<open>s.strip(chars)\<close>: every leading and trailing character that occurs in \<open>chars\<close>
  is removed; \<open>chars\<close> is a set of characters, not a prefix.\<close>

definition py_lstrip :: "'a list \<Rightarrow> 'a list \<Rightarrow> 'a list" where
  "py_lstrip chars s = dropWhile (\<lambda>c. c \<in> set chars) s"

definition py_rstrip :: "'a list \<Rightarrow> 'a list \<Rightarrow> 'a list" where
  "py_rstrip chars s = rev (dropWhile (\<lambda>c. c \<in> set chars) (rev s))"

definition py_strip :: "'a list \<Rightarrow> 'a list \<Rightarrow> 'a list" where
  "py_strip chars s = py_rstrip chars (py_lstrip chars s)"

text \<open>\<open>s.split(sep)\<close> for a one-character separator: the pieces between the
  separators, empty pieces included; the result is never empty, so its element \<open>[0]\<close>
  is its head.\<close>

fun py_split :: "'a \<Rightarrow> 'a list \<Rightarrow> 'a list list" where
  "py_split sep [] = [[]]"
| "py_split sep (c # cs) =
     (if c = sep then [] # py_split sep cs
      else (case py_split sep cs of
              [] \<Rightarrow> [[c]]
            | p # ps \<Rightarrow> (c # p) # ps))"

text \<open>\<open>s.startswith(prefix)\<close>.\<close>

definition startswith :: "'a list \<Rightarrow> 'a list \<Rightarrow> bool" where
  "startswith s pre = (take (length pre) s = pre)"

section \<open>Template selection\<close>

text \<open>\<open>mappings.get(parent, default)\<close> over the two-entry table of
  \<open>get_template_name\<close>; \<open>str(Path(name))\<close> leaves these plain file names as they are.\<close>

definition mappings :: "(ustr \<times> ustr) list" where
  "mappings = [(u ''blog'', u ''blog.html''), (u ''pages'', u ''page.html'')]"

definition get_template_name :: "ustr \<Rightarrow> ustr \<Rightarrow> ustr \<Rightarrow> ustr" where
  "get_template_name filename content_dir dflt =
     (let parent = hd (py_split (of_char CHR ''/'') (py_strip content_dir filename))
      in case map_of mappings parent of
           None \<Rightarrow> dflt
         | Some t \<Rightarrow> t)"

section \<open>Configuration loading\<close>

text \<open>
  What the YAML parser returns for a configuration file: scalars, lists and mappings.
  \<open>isinstance(v, dict)\<close> holds for \<open>YMap\<close> alone.
\<close>

datatype yaml =
    YNull
  | YBool bool
  | YInt int
  | YStr string
  | YList "yaml list"
  | YMap "(string \<times> yaml) list"

fun is_map :: "yaml \<Rightarrow> bool" where
  "is_map (YMap m) = True"
| "is_map v = False"

text \<open>
  \<open>DEFAULT_CONFIG.copy()\<close> is a shallow copy: the copy has its own top level, and
  its entries are the same section objects as the module-level dictionary's. So a
  top-level entry is a reference into a store of dictionary objects, or a value that is
  not one of the shared dictionaries.
\<close>

type_synonym addr = nat

datatype entry = Ref addr | Val yaml

type_synonym heap = "addr \<Rightarrow> (string \<rightharpoonup> yaml)"

type_synonym config = "string \<rightharpoonup> entry"

definition DEFAULT_CONFIG :: config where
  "DEFAULT_CONFIG =
     [''site'' \<mapsto> Ref 0, ''paths'' \<mapsto> Ref 1, ''build'' \<mapsto> Ref 2, ''feeds'' \<mapsto> Ref 3]"

definition site_defaults :: "string \<rightharpoonup> yaml" where
  "site_defaults =
     [''title'' \<mapsto> YStr ''Firstname Lastname'',
      ''author'' \<mapsto> YStr ''Firstname Lastname'',
      ''url'' \<mapsto> YStr ''https://blog.banderson443.me'',
      ''description'' \<mapsto> YStr ''Personal blog and writings'']"

definition paths_defaults :: "string \<rightharpoonup> yaml" where
  "paths_defaults =
     [''content'' \<mapsto> YStr ''content'',
      ''output'' \<mapsto> YStr ''docs'',
      ''templates'' \<mapsto> YStr ''templates'',
      ''static'' \<mapsto> YStr ''static'']"

definition build_defaults :: "string \<rightharpoonup> yaml" where
  "build_defaults =
     [''posts_per_page'' \<mapsto> YInt 20,
      ''include_drafts'' \<mapsto> YBool False]"

definition feeds_defaults :: "string \<rightharpoonup> yaml" where
  "feeds_defaults =
     [''enabled'' \<mapsto> YBool True,
      ''rss_path'' \<mapsto> YStr ''/feed/rss/'',
      ''atom_path'' \<mapsto> YStr ''/feed/atom/'']"

text \<open>The store when the module has just been imported.\<close>

definition initial_heap :: heap where
  "initial_heap a =
     (if a = 0 then site_defaults
      else if a = 1 then paths_defaults
      else if a = 2 then build_defaults
      else if a = 3 then feeds_defaults
      else Map.empty)"

text \<open>\<open>d.update(other)\<close>: the items of \<open>other\<close> are written into \<open>d\<close> in order.\<close>

fun dict_update :: "(string \<rightharpoonup> 'v) \<Rightarrow> (string \<times> 'v) list \<Rightarrow> (string \<rightharpoonup> 'v)" where
  "dict_update d [] = d"
| "dict_update d ((k, v) # kvs) = dict_update (d(k \<mapsto> v)) kvs"

text \<open>
  One round of the loop \<open>for key in user_config\<close> of \<open>load_config\<close>.
  \<open>config[key].update(...)\<close> raises \<open>KeyError\<close> when the defaults have no such
  section and \<open>AttributeError\<close> when \<open>config[key]\<close> is not a dictionary; it writes
  into the section object, which the defaults share. The other branch rebinds the key in
  the copy's top level.
\<close>

definition merge_key :: "string \<Rightarrow> yaml \<Rightarrow> config \<times> heap \<Rightarrow> error + (config \<times> heap)" where
  "merge_key key v ch =
     (case v of
        YMap m \<Rightarrow>
          (case fst ch key of
             None \<Rightarrow> Inl (KeyError key)
           | Some (Val w) \<Rightarrow> Inl AttributeError
           | Some (Ref a) \<Rightarrow> Inr (fst ch, (snd ch)(a := dict_update (snd ch a) m)))
      | _ \<Rightarrow> Inr ((fst ch)(key \<mapsto> Val v), snd ch))"

text \<open>The loop, over the parsed file's top-level items in order; an exception ends it.\<close>

fun merge_user :: "(string \<times> yaml) list \<Rightarrow> config \<times> heap \<Rightarrow> error + (config \<times> heap)" where
  "merge_user [] ch = Inr ch"
| "merge_user ((key, v) # rest) ch =
     (case merge_key key v ch of
        Inl e \<Rightarrow> Inl e
      | Inr ch' \<Rightarrow> merge_user rest ch')"

text \<open>
  \<open>load_config\<close>. The argument \<open>file\<close> is what the file system and the YAML parser
  give: \<open>None\<close> when the file does not exist, else the parsed top-level mapping as its
  items in order (a Python dictionary has each key once). The top level of the
  module's \<open>DEFAULT_CONFIG\<close> is never written; the store of section objects is
  threaded through, since a call may write into them.
\<close>

definition load_config :: "heap \<Rightarrow> (string \<times> yaml) list option \<Rightarrow> error + (config \<times> heap)" where
  "load_config h file =
     (case file of
        None \<Rightarrow> Inr (DEFAULT_CONFIG, h)
      | Some user_config \<Rightarrow> merge_user user_config (DEFAULT_CONFIG, h))"

text \<open>\<open>config[section][key]\<close> on a loaded configuration; indexing a value that is
  not a dictionary by a string raises \<open>TypeError\<close>.\<close>

definition getitem2 :: "config \<times> heap \<Rightarrow> string \<Rightarrow> string \<Rightarrow> error + yaml" where
  "getitem2 ch section key =
     (case fst ch section of
        None \<Rightarrow> Inl (KeyError section)
      | Some (Val v) \<Rightarrow> Inl TypeError
      | Some (Ref a) \<Rightarrow>
          (case snd ch a key of
             None \<Rightarrow> Inl (KeyError key)
           | Some v \<Rightarrow> Inr v))"

text \<open>\<open>load_config(file)[section][key]\<close>, starting from a given store.\<close>

definition loaded_item :: "heap \<Rightarrow> (string \<times> yaml) list option \<Rightarrow> string \<Rightarrow> string \<Rightarrow> error + yaml" where
  "loaded_item h file section key =
     (case load_config h file of
        Inl e \<Rightarrow> Inl e
      | Inr ch \<Rightarrow> getitem2 ch section key)"

text \<open>Two calls in one process: the second starts from the store the first left.\<close>

definition loaded_item_after :: "heap \<Rightarrow> (string \<times> yaml) list option \<Rightarrow> (string \<times> yaml) list option \<Rightarrow> string \<Rightarrow> string \<Rightarrow> error + yaml" where
  "loaded_item_after h first second section key =
     (case load_config h first of
        Inl e \<Rightarrow> Inl e
      | Inr ch \<Rightarrow> loaded_item (snd ch) second section key)"

section \<open>Content items\<close>

text \<open>
  A datetime as \<open>arrow.get(...).to("utc").datetime\<close> gives it: always in UTC, so two
  of them compare field by field. \<open>dt_time\<close> is the time of day in microseconds.
\<close>

datatype datetime = DT (dt_year: nat) (dt_month: nat) (dt_day: nat) (dt_time: nat)

definition dt_key :: "datetime \<Rightarrow> nat \<times> nat \<times> nat \<times> nat" where
  "dt_key d = (dt_year d, dt_month d, dt_day d, dt_time d)"

text \<open>
  The values a front-matter field holds in this model: YAML scalars, datetimes and
  lists. (Mappings and floats as field values are left out.)
\<close>

datatype pyval =
    PNone
  | PBool bool
  | PInt int
  | PStr ustr
  | PDate datetime
  | PList "pyval list"

text \<open>A content item is the dictionary \<open>get_template_context\<close> returns. Its keys
  are the names the program looks up, kept as \<open>string\<close>; a lookup reads the first
  binding of a key.\<close>

type_synonym item = "(string \<times> pyval) list"

text \<open>Python truthiness, as \<open>if v\<close> and \<open>not v\<close> read a value.\<close>

fun truthy :: "pyval \<Rightarrow> bool" where
  "truthy PNone = False"
| "truthy (PBool b) = b"
| "truthy (PInt n) = (n \<noteq> 0)"
| "truthy (PStr s) = (s \<noteq> [])"
| "truthy (PDate d) = True"
| "truthy (PList xs) = (xs \<noteq> [])"

text \<open>\<open>post.get("draft", False)\<close> read as a condition.\<close>

definition is_draft :: "item \<Rightarrow> bool" where
  "is_draft post = (case map_of post ''draft'' of None \<Rightarrow> False | Some v \<Rightarrow> truthy v)"

text \<open>\<open>d[key] = v\<close> on a dictionary kept as its items.\<close>

fun dict_set :: "(string \<times> 'v) list \<Rightarrow> string \<Rightarrow> 'v \<Rightarrow> (string \<times> 'v) list" where
  "dict_set [] k v = [(k, v)]"
| "dict_set ((k', v') # kvs) k v =
     (if k' = k then (k, v) # kvs else (k', v') # dict_set kvs k v)"

text \<open>
  \<open>parse_front_matter\<close>. \<open>fm\<close> is the parsed front-matter block, \<open>None\<close> when the
  file has none. \<open>arrow_get\<close> stands for \<open>arrow.get(v).to("utc").datetime\<close> and is
  \<open>None\<close> where that raises. Both a missing \<open>date\<close> key and a date that does not
  parse end in the \<open>except\<close> branch, which logs and leaves the dictionary as it is.
\<close>

definition parse_front_matter :: "(pyval \<Rightarrow> datetime option) \<Rightarrow> item option \<Rightarrow> item" where
  "parse_front_matter arrow_get fm =
     (case fm of
        None \<Rightarrow> []
      | Some d \<Rightarrow>
          (case map_of d ''date'' of
             None \<Rightarrow> d
           | Some v \<Rightarrow>
               (case arrow_get v of
                  None \<Rightarrow> d
                | Some dt \<Rightarrow> dict_set d ''date'' (PDate dt))))"

text \<open>\<open>get_template_context\<close>: the parsed front matter with the rendered body stored
  under \<open>html_content\<close>. (The missing-title warning only logs.)\<close>

definition get_template_context :: "(pyval \<Rightarrow> datetime option) \<Rightarrow> item option \<Rightarrow> ustr \<Rightarrow> item" where
  "get_template_context arrow_get fm html =
     dict_set (parse_front_matter arrow_get fm) ''html_content'' (PStr html)"

section \<open>Tag normalisation\<close>

text \<open>\<open>.encode("ascii", "ignore").decode("ascii")\<close> drops every code point that is
  not ASCII.\<close>

definition encode_ascii_ignore :: "ustr \<Rightarrow> ustr" where
  "encode_ascii_ignore s = filter (\<lambda>c. c < 128) s"

text \<open>
  The string is ASCII from here on. \<open>lower()\<close> turns \<open>A-Z\<close> into \<open>a-z\<close>; the
  regular expression classes are given on ASCII: \<open>\w\<close> is a letter, a digit or the
  underscore, \<open>\s\<close> is the space, \<open>\t \n \v \f \r\<close> and the four separators
  \<open>0x1c\<close> to \<open>0x1f\<close>.
\<close>

definition lower_char :: "nat \<Rightarrow> nat" where
  "lower_char c = (if 65 \<le> c \<and> c \<le> 90 then c + 32 else c)"

definition py_lower :: "ustr \<Rightarrow> ustr" where
  "py_lower s = map lower_char s"

definition re_word :: "nat \<Rightarrow> bool" where
  "re_word c = ((48 \<le> c \<and> c \<le> 57) \<or> (65 \<le> c \<and> c \<le> 90) \<or> (97 \<le> c \<and> c \<le> 122) \<or> c = 95)"

definition re_space :: "nat \<Rightarrow> bool" where
  "re_space c = ((9 \<le> c \<and> c \<le> 13) \<or> (28 \<le> c \<and> c \<le> 32))"

definition hyphen :: nat where
  "hyphen = 45"

definition underscore :: nat where
  "underscore = 95"

text \<open>\<open>re.sub(r"[^\w\s-]", "", value)\<close>: only word characters, whitespace and
  hyphens stay.\<close>

definition strip_symbols :: "ustr \<Rightarrow> ustr" where
  "strip_symbols s = filter (\<lambda>c. re_word c \<or> re_space c \<or> c = hyphen) s"

text \<open>\<open>re.sub(r"[-\s]+", "-", value)\<close>: every maximal run of hyphens and whitespace
  becomes one hyphen.\<close>

definition is_sep :: "nat \<Rightarrow> bool" where
  "is_sep c = (c = hyphen \<or> re_space c)"

function collapse_seps :: "ustr \<Rightarrow> ustr" where
  "collapse_seps [] = []"
| "collapse_seps (c # cs) =
     (if is_sep c then hyphen # collapse_seps (dropWhile is_sep cs)
      else c # collapse_seps cs)"
  by pat_completeness auto
termination
  by (relation "measure length") (auto simp: length_dropWhile_le less_Suc_eq_le)

text \<open>
  \<open>normalize_tag\<close>. \<open>nfkd\<close> stands for \<open>unicodedata.normalize("NFKD", _)\<close>, whose
  tables are the Unicode database's and not the program's.
\<close>

definition normalize_tag :: "(ustr \<Rightarrow> ustr) \<Rightarrow> ustr \<Rightarrow> ustr" where
  "normalize_tag nfkd v =
     py_strip [hyphen, underscore]
       (collapse_seps (strip_symbols (py_lower (encode_ascii_ignore (nfkd v)))))"

section \<open>Sorting by date\<close>

text \<open>
  \<open>sorted(xs, key=k, reverse=r)\<close> is stable, also with \<open>reverse=True\<close>: items with
  equal keys keep the order they came in.
\<close>

definition py_sorted :: "('a \<Rightarrow> 'k::linorder) \<Rightarrow> bool \<Rightarrow> 'a list \<Rightarrow> 'a list" where
  "py_sorted key reverse xs =
     (if reverse then rev (sort_key key (rev xs)) else sort_key key xs)"

fun is_date :: "pyval \<Rightarrow> bool" where
  "is_date (PDate d) = True"
| "is_date v = False"

fun is_str :: "pyval \<Rightarrow> bool" where
  "is_str (PStr s) = True"
| "is_str v = False"

fun is_num :: "pyval \<Rightarrow> bool" where
  "is_num (PInt n) = True"
| "is_num (PBool b) = True"
| "is_num v = False"

fun is_list :: "pyval \<Rightarrow> bool" where
  "is_list (PList xs) = True"
| "is_list v = False"

text \<open>The sort keys by kind; each is read only where every key is of that kind.\<close>

fun date_of :: "pyval \<Rightarrow> nat \<times> nat \<times> nat \<times> nat" where
  "date_of (PDate d) = dt_key d"
| "date_of v = (0, 0, 0, 0)"

fun str_of :: "pyval \<Rightarrow> ustr" where
  "str_of (PStr s) = s"
| "str_of v = []"

fun num_of :: "pyval \<Rightarrow> int" where
  "num_of (PInt n) = n"
| "num_of (PBool b) = (if b then 1 else 0)"
| "num_of v = 0"

text \<open>\<open>post["date"]\<close> where the key is known to be there.\<close>

definition date_field :: "item \<Rightarrow> pyval" where
  "date_field post = (case map_of post ''date'' of None \<Rightarrow> PNone | Some v \<Rightarrow> v)"

definition has_key :: "string \<Rightarrow> item \<Rightarrow> bool" where
  "has_key k post = (map_of post k \<noteq> None)"

text \<open>
  \<open>sorted(index, key=lambda d: d["date"], reverse=r)\<close>. The keys are computed first,
  so a post without \<open>date\<close> raises \<open>KeyError\<close>. With fewer than two posts nothing is
  compared. Otherwise datetimes order among themselves, strings among themselves and
  numbers among themselves; \<open>None\<close> orders with nothing, and two keys of different kinds
  raise \<open>TypeError\<close>.
\<close>

definition sort_by_date :: "bool \<Rightarrow> item list \<Rightarrow> error + item list" where
  "sort_by_date reverse index =
     (if \<not> list_all (has_key ''date'') index then Inl (KeyError ''date'')
      else if length index < 2 then Inr index
      else if list_all (\<lambda>p. is_date (date_field p)) index
        then Inr (py_sorted (\<lambda>p. date_of (date_field p)) reverse index)
      else if list_all (\<lambda>p. is_str (date_field p)) index
        then Inr (py_sorted (\<lambda>p. str_of (date_field p)) reverse index)
      else if list_all (\<lambda>p. is_num (date_field p)) index
        then Inr (py_sorted (\<lambda>p. num_of (date_field p)) reverse index)
      else if list_ex (\<lambda>p. is_list (date_field p)) index then Inl NotModelled
      else Inl TypeError)"

section \<open>The build\<close>

text \<open>
  The configuration as the build reads it, for values of the types the defaults have:
  \<open>config["site"]["title"]\<close>, \<open>config["build"]["posts_per_page"]\<close> and so on.
\<close>

record settings =
  site_title :: ustr
  site_author :: ustr
  site_url :: ustr
  site_description :: ustr
  content_dir :: ustr
  output_dir :: ustr
  posts_per_page :: int
  include_drafts :: bool
  feeds_enabled :: bool

text \<open>A \<open>pathlib\<close> expression, kept as written: \<open>Path(s)\<close> and \<open>a / b\<close>.\<close>

datatype path = Path ustr | Join path path

text \<open>
  What \<open>render\<close> is called with: the directory, the template name, and the template
  context, which holds a title, a subtitle, and either \<open>posts\<close> or \<open>tags\<close>. The
  template engine and the file system are outside the model, so a call to \<open>render\<close> is
  recorded and not carried out.
\<close>

datatype listing = Posts "item list" | Tags "(ustr \<times> ustr) list"

record page =
  page_dir :: path
  page_template :: ustr
  page_title :: ustr
  page_subtitle :: ustr
  page_body :: listing

text \<open>\<open>xs[:n]\<close>: a negative \<open>n\<close> counts from the end.\<close>

definition slice_to :: "int \<Rightarrow> 'a list \<Rightarrow> 'a list" where
  "slice_to n xs =
     (if 0 \<le> n then take (nat n) xs else take (length xs - nat (- n)) xs)"

subsection \<open>Index pages\<close>

definition build_index :: "settings \<Rightarrow> item list \<Rightarrow> error + page list" where
  "build_index config index =
     (case sort_by_date True index of
        Inl e \<Rightarrow> Inl e
      | Inr sorted_index \<Rightarrow>
          Inr [\<lparr>page_dir = Path (output_dir config),
                page_template = u ''index.html'',
                page_title = site_title config,
                page_subtitle = u ''Latest posts...'',
                page_body = Posts (slice_to (posts_per_page config) sorted_index)\<rparr>,
               \<lparr>page_dir = Join (Path (output_dir config)) (Path (u ''blog'')),
                page_template = u ''index.html'',
                page_title = site_title config,
                page_subtitle = site_title config @ u ''. All of it.'',
                page_body = Posts sorted_index\<rparr>])"

subsection \<open>Date archives\<close>

text \<open>Decimal digits, and \<open>strftime\<close>'s zero-padded fields (\<open>%Y\<close> four wide, \<open>%m\<close>
  and \<open>%d\<close> two wide). For a year before 1000 the C library decides whether \<open>%Y\<close>
  pads; from 1000 on there is nothing to pad.\<close>

fun digits :: "nat \<Rightarrow> ustr" where
  "digits n = (if n < 10 then [48 + n] else digits (n div 10) @ [48 + n mod 10])"

definition zero_pad :: "nat \<Rightarrow> nat \<Rightarrow> ustr" where
  "zero_pad w n = replicate (w - length (digits n)) 48 @ digits n"

definition strftime_Y :: "datetime \<Rightarrow> ustr" where
  "strftime_Y d = zero_pad 4 (dt_year d)"

definition strftime_Ym :: "datetime \<Rightarrow> ustr" where
  "strftime_Ym d = strftime_Y d @ u ''/'' @ zero_pad 2 (dt_month d)"

definition strftime_Ymd :: "datetime \<Rightarrow> ustr" where
  "strftime_Ymd d = strftime_Ym d @ u ''/'' @ zero_pad 2 (dt_day d)"

text \<open>\<open>articles[key].append(post)\<close> on a \<open>defaultdict(list)\<close>; the dictionary keeps
  its keys in the order they were first used.\<close>

fun bucket_append :: "('k \<times> 'a list) list \<Rightarrow> 'k \<Rightarrow> 'a \<Rightarrow> ('k \<times> 'a list) list" where
  "bucket_append [] k x = [(k, [x])]"
| "bucket_append ((k', xs) # rest) k x =
     (if k' = k then (k', xs @ [x]) # rest else (k', xs) # bucket_append rest k x)"

text \<open>
  The first loop of \<open>build_date_archives\<close>. \<open>post["date"]\<close> raises \<open>KeyError\<close>
  without the key, and \<open>.strftime\<close> raises \<open>AttributeError\<close> on anything that is not
  a datetime.
\<close>

fun archive_posts :: "item list \<Rightarrow> (ustr \<times> item list) list \<Rightarrow> error + (ustr \<times> item list) list" where
  "archive_posts [] articles = Inr articles"
| "archive_posts (post # rest) articles =
     (case map_of post ''date'' of
        None \<Rightarrow> Inl (KeyError ''date'')
      | Some (PDate d) \<Rightarrow>
          archive_posts rest
            (bucket_append
              (bucket_append
                (bucket_append articles (u ''blog/'' @ strftime_Y d) post)
                (u ''blog/'' @ strftime_Ym d) post)
              (u ''blog/'' @ strftime_Ymd d) post)
      | Some v \<Rightarrow> Inl AttributeError)"

definition archive_page :: "settings \<Rightarrow> ustr \<times> item list \<Rightarrow> page" where
  "archive_page config kv =
     \<lparr>page_dir = Path (output_dir config @ u ''/'' @ fst kv),
      page_template = u ''index.html'',
      page_title = site_title config,
      page_subtitle = u ''Archive'',
      page_body = Posts (snd kv)\<rparr>"

definition build_date_archives :: "settings \<Rightarrow> item list \<Rightarrow> error + page list" where
  "build_date_archives config index =
     (case archive_posts index [] of
        Inl e \<Rightarrow> Inl e
      | Inr articles \<Rightarrow> Inr (map (archive_page config) articles))"

subsection \<open>Tag pages\<close>

text \<open>
  Iterating \<open>post.get("tags", [])\<close>: a list gives its elements, a string its
  characters, and the other values are not iterable.
\<close>

definition iter_tags :: "item \<Rightarrow> error + pyval list" where
  "iter_tags post =
     (case map_of post ''tags'' of
        None \<Rightarrow> Inr []
      | Some (PList xs) \<Rightarrow> Inr xs
      | Some (PStr s) \<Rightarrow> Inr (map (\<lambda>c. PStr [c]) s)
      | Some v \<Rightarrow> Inl TypeError)"

fun all_tags :: "item list \<Rightarrow> error + pyval list" where
  "all_tags [] = Inr []"
| "all_tags (post # rest) =
     (case iter_tags post of
        Inl e \<Rightarrow> Inl e
      | Inr ts \<Rightarrow> (case all_tags rest of Inl e \<Rightarrow> Inl e | Inr us \<Rightarrow> Inr (ts @ us)))"

text \<open>
  The first two statements of \<open>build_tags\<close>:
  \<open>tags = sorted(set(chain(...)))\<close>, then \<open>[normalize_tag(tag) for tag in tags]\<close>.
  A tag that is not a string ends in \<open>TypeError\<close> (unhashable in \<open>set\<close>, unordered in
  \<open>sorted\<close>, or refused by \<open>unicodedata.normalize\<close>). The distinct strings are
  sorted as Python orders strings, by code point; then each is normalised.
\<close>

definition tag_index :: "(ustr \<Rightarrow> ustr) \<Rightarrow> item list \<Rightarrow> error + ustr list" where
  "tag_index nfkd index =
     (case all_tags index of
        Inl e \<Rightarrow> Inl e
      | Inr ts \<Rightarrow>
          if list_all is_str ts
          then Inr (map (normalize_tag nfkd) (sort (remdups (map str_of ts))))
          else Inl TypeError)"

text \<open>The loops that fill \<open>by_tags\<close>; they run after \<open>tag_index\<close> succeeded, so every
  tag is a string.\<close>

fun group_tags :: "(ustr \<Rightarrow> ustr) \<Rightarrow> item \<Rightarrow> pyval list \<Rightarrow> (ustr \<times> item list) list \<Rightarrow> (ustr \<times> item list) list" where
  "group_tags nfkd post [] by_tags = by_tags"
| "group_tags nfkd post (t # ts) by_tags =
     group_tags nfkd post ts (bucket_append by_tags (normalize_tag nfkd (str_of t)) post)"

fun group_posts :: "(ustr \<Rightarrow> ustr) \<Rightarrow> item list \<Rightarrow> (ustr \<times> item list) list \<Rightarrow> error + (ustr \<times> item list) list" where
  "group_posts nfkd [] by_tags = Inr by_tags"
| "group_posts nfkd (post # rest) by_tags =
     (case iter_tags post of
        Inl e \<Rightarrow> Inl e
      | Inr ts \<Rightarrow> group_posts nfkd rest (group_tags nfkd post ts by_tags))"

definition tag_page :: "settings \<Rightarrow> ustr \<times> item list \<Rightarrow> page" where
  "tag_page config kv =
     \<lparr>page_dir = Path (output_dir config @ u ''/blog/tags/'' @ fst kv),
      page_template = u ''index.html'',
      page_title = site_title config,
      page_subtitle = u ''Tagged '' @ fst kv,
      page_body = Posts (snd kv)\<rparr>"

definition build_tags :: "(ustr \<Rightarrow> ustr) \<Rightarrow> settings \<Rightarrow> item list \<Rightarrow> error + page list" where
  "build_tags nfkd config index =
     (case tag_index nfkd index of
        Inl e \<Rightarrow> Inl e
      | Inr tags \<Rightarrow>
          (case group_posts nfkd index [] of
             Inl e \<Rightarrow> Inl e
           | Inr by_tags \<Rightarrow>
               Inr (\<lparr>page_dir = Path (output_dir config @ u ''/blog/tags/''),
                     page_template = u ''tags.html'',
                     page_title = site_title config,
                     page_subtitle = u ''Tags'',
                     page_body = Tags (map (\<lambda>tag. (tag, u ''/blog/tags/'' @ tag @ u ''/'')) tags)\<rparr>
                    # map (tag_page config) by_tags)))"

subsection \<open>Feeds\<close>

text \<open>
  One feed entry, as the calls on \<open>fe\<close> set it. \<open>site_url + post["url"]\<close> raises
  \<open>KeyError\<close> without the key and \<open>TypeError\<close> when the value is not a string;
  \<open>post["title"]\<close> and \<open>post["html_content"]\<close> raise \<open>KeyError\<close> without their
  keys. The feed library's own checks of what it is given are outside the model.
\<close>

record feed_entry =
  fe_id :: ustr
  fe_author :: ustr
  fe_title :: pyval
  fe_link :: ustr
  fe_content :: pyval
  fe_description :: pyval
  fe_pubdate :: pyval

definition feed_entry_of :: "settings \<Rightarrow> item \<Rightarrow> error + feed_entry" where
  "feed_entry_of config post =
     (case map_of post ''url'' of
        None \<Rightarrow> Inl (KeyError ''url'')
      | Some (PStr url) \<Rightarrow>
          (case map_of post ''title'' of
             None \<Rightarrow> Inl (KeyError ''title'')
           | Some title \<Rightarrow>
               (case map_of post ''html_content'' of
                  None \<Rightarrow> Inl (KeyError ''html_content'')
                | Some content \<Rightarrow>
                    (case map_of post ''date'' of
                       None \<Rightarrow> Inl (KeyError ''date'')
                     | Some d \<Rightarrow>
                         Inr \<lparr>fe_id = site_url config @ url,
                              fe_author = site_author config,
                              fe_title = title,
                              fe_link = site_url config @ url,
                              fe_content = content,
                              fe_description =
                                (case map_of post ''description'' of
                                   None \<Rightarrow> PStr []
                                 | Some v \<Rightarrow> v),
                              fe_pubdate = d\<rparr>)))
      | Some v \<Rightarrow> Inl TypeError)"

text \<open>
  \<open>fg.add_entry()\<close> is called without an \<open>order\<close>, and the feed library's default is
  \<open>order='prepend'\<close>: the new entry goes to the front of the feed's entry list.
\<close>

definition add_entry :: "feed_entry \<Rightarrow> feed_entry list \<Rightarrow> feed_entry list" where
  "add_entry fe entries = fe # entries"

text \<open>The loop \<open>for post in items\<close> on the feed's entry list \<open>fg\<close>: an exception
  ends it.\<close>

fun feed_entries :: "settings \<Rightarrow> item list \<Rightarrow> feed_entry list \<Rightarrow> error + feed_entry list" where
  "feed_entries config [] fg = Inr fg"
| "feed_entries config (post # rest) fg =
     (case feed_entry_of config post of
        Inl e \<Rightarrow> Inl e
      | Inr fe \<Rightarrow> feed_entries config rest (add_entry fe fg))"

text \<open>
  \<open>build_feeds\<close>: \<open>None\<close> when feeds are disabled, else the feed's entry list after
  the loop, which starts from an empty feed. Both files, \<open>atom.xml\<close> and \<open>rss.xml\<close>,
  are written from this one list, in its order.
\<close>

definition build_feeds :: "settings \<Rightarrow> item list \<Rightarrow> error + feed_entry list option" where
  "build_feeds config index =
     (if \<not> feeds_enabled config then Inr None
      else
        (case sort_by_date False (filter (\<lambda>post. \<not> is_draft post) index) of
           Inl e \<Rightarrow> Inl e
         | Inr items \<Rightarrow>
             (case feed_entries config items [] of
                Inl e \<Rightarrow> Inl e
              | Inr fes \<Rightarrow> Inr (Some fes))))"

subsection \<open>Sitemap\<close>

text \<open>
  One \<open><url>\<close> block of the sitemap: what the \<open><loc>\<close> line formats (the site URL
  and the post's \<open>url\<close> value, which an f-string takes whatever it is) and the
  \<open><lastmod>\<close> date.
\<close>

record sitemap_url =
  loc_site :: ustr
  loc_url :: pyval
  lastmod :: ustr

definition strftime_Y_m_d :: "datetime \<Rightarrow> ustr" where
  "strftime_Y_m_d d =
     strftime_Y d @ u ''-'' @ zero_pad 2 (dt_month d) @ u ''-'' @ zero_pad 2 (dt_day d)"

fun build_sitemap :: "settings \<Rightarrow> item list \<Rightarrow> error + sitemap_url list" where
  "build_sitemap config [] = Inr []"
| "build_sitemap config (post # rest) =
     (if is_draft post then build_sitemap config rest
      else
        (case map_of post ''url'' of
           None \<Rightarrow> Inl (KeyError ''url'')
         | Some url \<Rightarrow>
             (case map_of post ''date'' of
                None \<Rightarrow> Inl (KeyError ''date'')
              | Some (PDate d) \<Rightarrow>
                  (case build_sitemap config rest of
                     Inl e \<Rightarrow> Inl e
                   | Inr urls \<Rightarrow>
                       Inr (\<lparr>loc_site = site_url config, loc_url = url,
                             lastmod = strftime_Y_m_d d\<rparr> # urls))
              | Some v \<Rightarrow> Inl AttributeError)))"

subsection \<open>Output paths\<close>

text \<open>
  \<open>Path(file).stem\<close>: the last path component (empty and \<open>.\<close> components do not
  count) without its last suffix; a dot that starts or ends the name begins no suffix.
\<close>

definition path_name :: "ustr \<Rightarrow> ustr" where
  "path_name s =
     (case filter (\<lambda>p. p \<noteq> [] \<and> p \<noteq> u ''.'') (py_split (of_char CHR ''/'') s) of
        [] \<Rightarrow> []
      | p # ps \<Rightarrow> last (p # ps))"

definition path_stem :: "ustr \<Rightarrow> ustr" where
  "path_stem s =
     (let name = path_name s;
          dot = of_char CHR ''.'';
          after = takeWhile (\<lambda>c. c \<noteq> dot) (rev name);
          i = length name - length after - 1
      in if dot \<in> set name \<and> 0 < i \<and> after \<noteq> [] then take i name else name)"

text \<open>\<open>[u.strip("/") for u in context["aliases"]]\<close>: a list gives its elements, a
  string its characters; an element that is not a string has no \<open>strip\<close>.\<close>

fun strip_aliases :: "pyval list \<Rightarrow> error + ustr list" where
  "strip_aliases [] = Inr []"
| "strip_aliases (PStr a # rest) =
     (case strip_aliases rest of
        Inl e \<Rightarrow> Inl e
      | Inr urls \<Rightarrow> Inr (py_strip (u ''/'') a # urls))"
| "strip_aliases (v # rest) = Inl AttributeError"

definition alias_urls :: "item \<Rightarrow> error + ustr list" where
  "alias_urls post =
     (case map_of post ''aliases'' of
        None \<Rightarrow> Inr []
      | Some (PList xs) \<Rightarrow> strip_aliases xs
      | Some (PStr s) \<Rightarrow> strip_aliases (map (\<lambda>c. PStr [c]) s)
      | Some v \<Rightarrow> Inl TypeError)"

definition explicit_url :: "item \<Rightarrow> error + ustr list" where
  "explicit_url post =
     (case map_of post ''url'' of
        None \<Rightarrow> Inr []
      | Some (PStr url) \<Rightarrow> Inr [py_strip (u ''/'') url]
      | Some v \<Rightarrow> Inl AttributeError)"

definition get_output_paths :: "ustr \<Rightarrow> item \<Rightarrow> ustr \<Rightarrow> error + path list" where
  "get_output_paths output post file =
     (case explicit_url post of
        Inl e \<Rightarrow> Inl e
      | Inr urls1 \<Rightarrow>
          (case alias_urls post of
             Inl e \<Rightarrow> Inl e
           | Inr urls2 \<Rightarrow>
               (let urls = (if urls1 @ urls2 = [] then [path_stem file] else urls1 @ urls2)
                in Inr (map (\<lambda>url. Join (Join (Path output) (Path url)) (Path (u ''index.html''))) urls))))"

subsection \<open>The build command\<close>

text \<open>One written content page: the files it went to, the template that rendered it,
  and the item.\<close>

record written =
  w_paths :: "path list"
  w_template :: ustr
  w_item :: item

text \<open>
  The loop of \<open>build\<close> over the markdown files, each given with the context
  \<open>get_template_context\<close> made of it. It returns the pages written and the index.
\<close>

fun build_pages :: "settings \<Rightarrow> (ustr \<times> item) list \<Rightarrow> written list \<times> item list \<Rightarrow> error + (written list \<times> item list)" where
  "build_pages config [] acc = Inr acc"
| "build_pages config ((file, post) # rest) acc =
     (if is_draft post \<and> \<not> include_drafts config then build_pages config rest acc
      else
        (case get_output_paths (output_dir config) post file of
           Inl e \<Rightarrow> Inl e
         | Inr paths \<Rightarrow>
             build_pages config rest
               (fst acc @ [\<lparr>w_paths = paths,
                           w_template = get_template_name file (content_dir config) (u ''page.html''),
                           w_item = post\<rparr>],
                if startswith (py_strip (content_dir config) file) (u ''/blog'')
                then snd acc @ [post] else snd acc)))"

record site =
  content_pages :: "written list"
  index_pages :: "page list"
  tag_pages :: "page list"
  archive_pages :: "page list"
  feed :: "feed_entry list option"
  sitemap :: "sitemap_url list"

text \<open>
  \<open>build\<close>, from the scanned and parsed files on: the content pages, then the index,
  tag and archive pages, the feed and the sitemap, one builder after the other. An
  exception in any of them ends the run. (The steps after the sitemap only copy files.)
\<close>

definition build :: "(ustr \<Rightarrow> ustr) \<Rightarrow> settings \<Rightarrow> (ustr \<times> item) list \<Rightarrow> error + site" where
  "build nfkd config files =
     (case build_pages config files ([], []) of
        Inl e \<Rightarrow> Inl e
      | Inr (pages, index) \<Rightarrow>
     (case build_index config index of
        Inl e \<Rightarrow> Inl e
      | Inr ipages \<Rightarrow>
     (case build_tags nfkd config index of
        Inl e \<Rightarrow> Inl e
      | Inr tpages \<Rightarrow>
     (case build_date_archives config index of
        Inl e \<Rightarrow> Inl e
      | Inr apages \<Rightarrow>
     (case build_feeds config index of
        Inl e \<Rightarrow> Inl e
      | Inr fd \<Rightarrow>
     (case build_sitemap config index of
        Inl e \<Rightarrow> Inl e
      | Inr sm \<Rightarrow>
          Inr \<lparr>content_pages = pages, index_pages = ipages, tag_pages = tpages,
               archive_pages = apages, feed = fd, sitemap = sm\<rparr>))))))"

section \<open>Notions the properties are stated with\<close>

text \<open>
  Two tags differ only by letter case or accenting when they agree after the
  combining diacritical marks (U+0300 to U+036F) are dropped and \<open>A-Z\<close> is lowered.
\<close>

definition combining_mark :: "nat \<Rightarrow> bool" where
  "combining_mark c = (768 \<le> c \<and> c \<le> 879)"

definition fold_case_accents :: "ustr \<Rightarrow> ustr" where
  "fold_case_accents s = map lower_char (filter (\<lambda>c. \<not> combining_mark c) s)"

text \<open>The characters of a slug: a hyphen, or a word character that is not upper case.\<close>

definition slug_char :: "nat \<Rightarrow> bool" where
  "slug_char c = (c = hyphen \<or> (re_word c \<and> \<not> (65 \<le> c \<and> c \<le> 90)))"

text \<open>No two hyphens in a row.\<close>

fun starts_hyphen :: "ustr \<Rightarrow> bool" where
  "starts_hyphen [] = False"
| "starts_hyphen (c # cs) = (c = hyphen)"

fun no_run :: "ustr \<Rightarrow> bool" where
  "no_run [] = True"
| "no_run (c # cs) = (\<not> (c = hyphen \<and> starts_hyphen cs) \<and> no_run cs)"

text \<open>
  Two code points whose decompositions hold the same ASCII characters up to the case of
  \<open>A-Z\<close>: a letter and its other case where both decompose alike, or two code points
  that both decompose into nothing ASCII.
\<close>

definition same_ascii_letters :: "(ustr \<Rightarrow> ustr) \<Rightarrow> nat \<Rightarrow> nat \<Rightarrow> bool" where
  "same_ascii_letters nfkd c d =
     (py_lower (encode_ascii_ignore (nfkd [c])) = py_lower (encode_ascii_ignore (nfkd [d])))"

text \<open>
  A fragment of the NFKD tables, for examples: U+00E9 and U+00C9 (e and E with acute)
  decompose into the letter and the combining acute U+0301; the other code points used
  in the examples decompose into themselves: the ASCII ones, the dotless i U+0131, and
  the Greek omegas U+03A9 and U+03C9.
\<close>

definition decomp_sample :: "nat \<Rightarrow> ustr" where
  "decomp_sample c = (if c = 233 then [101, 769] else if c = 201 then [69, 769] else [c])"

definition nfkd_sample :: "ustr \<Rightarrow> ustr" where
  "nfkd_sample s = concat (map decomp_sample s)"

text \<open>
  A fragment of the upper-case table behind \<open>str.upper()\<close>, for examples:
  \<open>a-z\<close> go to \<open>A-Z\<close>, and the upper case of the dotless i U+0131 is \<open>I\<close>.
\<close>

definition upper_sample :: "nat \<Rightarrow> nat" where
  "upper_sample c =
     (if 97 \<le> c \<and> c \<le> 122 then c - 32 else if c = 305 then 73 else c)"

text \<open>
  A sitemap block made from a post: the post is not a draft, the block's location is the
  post's \<open>url\<close> value, and its date is the post's datetime as \<open>%Y-%m-%d\<close>.
\<close>

definition sitemap_url_from :: "item \<Rightarrow> sitemap_url \<Rightarrow> bool" where
  "sitemap_url_from p su =
     (\<not> is_draft p \<and> map_of p ''url'' = Some (loc_url su) \<and>
      (case map_of p ''date'' of
         Some (PDate d) \<Rightarrow> lastmod su = strftime_Y_m_d d
       | _ \<Rightarrow> False))"

text \<open>What the feed loop reads from a post: a string \<open>url\<close>, and the keys \<open>title\<close>,
  \<open>html_content\<close> and \<open>date\<close>.\<close>

definition feed_ready :: "item \<Rightarrow> bool" where
  "feed_ready p =
     (is_str (case map_of p ''url'' of None \<Rightarrow> PNone | Some v \<Rightarrow> v) \<and>
      has_key ''url'' p \<and> has_key ''title'' p \<and> has_key ''html_content'' p \<and> has_key ''date'' p)"

text \<open>What the sitemap loop reads from a post: the key \<open>url\<close> and a datetime \<open>date\<close>.\<close>

definition sitemap_ready :: "item \<Rightarrow> bool" where
  "sitemap_ready p = (has_key ''url'' p \<and> is_date (date_field p))"

section \<open>Example inputs\<close>

text \<open>A user file that overrides the site title and adds a top-level value of its own.\<close>

definition user_example :: "(string \<times> yaml) list" where
  "user_example = [(''site'', YMap [(''title'', YStr ''Mine'')]), (''theme'', YStr ''dark'')]"

text \<open>The settings the built-in defaults give.\<close>

definition default_settings :: settings where
  "default_settings =
     \<lparr>site_title = u ''Firstname Lastname'',
      site_author = u ''Firstname Lastname'',
      site_url = u ''https://blog.banderson443.me'',
      site_description = u ''Personal blog and writings'',
      content_dir = u ''content'',
      output_dir = u ''docs'',
      posts_per_page = 20,
      include_drafts = False,
      feeds_enabled = True\<rparr>"

text \<open>Two posts of different days, a third of the same day as the first, and a draft.\<close>

definition post_a :: item where
  "post_a =
     [(''title'', PStr (u ''A'')), (''date'', PDate (DT 2024 1 5 0)),
      (''url'', PStr (u ''/blog/a/'')), (''html_content'', PStr (u ''a''))]"

definition post_b :: item where
  "post_b =
     [(''title'', PStr (u ''B'')), (''date'', PDate (DT 2024 2 6 0)),
      (''url'', PStr (u ''/blog/b/'')), (''html_content'', PStr (u ''b''))]"

definition post_a2 :: item where
  "post_a2 =
     [(''title'', PStr (u ''A2'')), (''date'', PDate (DT 2024 1 5 0)),
      (''url'', PStr (u ''/blog/a2/'')), (''html_content'', PStr (u ''a2''))]"

definition post_draft :: item where
  "post_draft =
     [(''title'', PStr (u ''D'')), (''date'', PDate (DT 2024 3 7 0)), (''draft'', PBool True),
      (''url'', PStr (u ''/blog/d/'')), (''html_content'', PStr (u ''d''))]"

text \<open>A post without the \<open>url\<close> field, and one without a title.\<close>

definition post_no_url :: item where
  "post_no_url =
     [(''title'', PStr (u ''Hello'')), (''date'', PDate (DT 2024 1 5 0)),
      (''html_content'', PStr (u ''hi''))]"

definition post_no_title :: item where
  "post_no_title =
     [(''date'', PDate (DT 2024 1 5 0)), (''url'', PStr (u ''/blog/x/'')),
      (''html_content'', PStr (u ''x''))]"

text \<open>A post whose date did not parse: \<open>arrow.get\<close> raised, so the field is the string
  the front matter had.\<close>

definition front_matter_bad_date :: item where
  "front_matter_bad_date =
     [(''title'', PStr (u ''Hello'')), (''date'', PStr (u ''someday'')),
      (''url'', PStr (u ''/blog/hello/''))]"

definition post_bad_date :: item where
  "post_bad_date = get_template_context (\<lambda>v. None) (Some front_matter_bad_date) (u ''hi'')"

text \<open>A post with two tags that differ by case.\<close>

definition post_two_tags :: item where
  "post_two_tags =
     [(''title'', PStr (u ''T'')), (''tags'', PList [PStr (u ''Go''), PStr (u ''go'')])]"

section \<open>Template selection: properties\<close>

lemma py_split_nonempty: "py_split sep s \<noteq> []"
  by (induction s) (auto split: list.splits)

lemma dropWhile_snoc_keep: "\<not> P x \<Longrightarrow> dropWhile P (ys @ [x]) = dropWhile P ys @ [x]"
  by (induction ys) auto

lemma py_strip_after_dir:
  assumes "sep \<notin> set chars"
  shows "\<exists>r. py_strip chars (chars @ sep # rest) = sep # r"
proof -
  have l: "py_lstrip chars (chars @ sep # rest) = sep # rest"
    using assms by (simp add: py_lstrip_def dropWhile_append2)
  have "py_rstrip chars (sep # rest) = sep # rev (dropWhile (\<lambda>c. c \<in> set chars) (rev rest))"
    using assms by (simp add: py_rstrip_def dropWhile_snoc_keep)
  then show ?thesis by (simp add: py_strip_def l)
qed

lemma map_of_mappings_empty: "map_of mappings [] = None"
  by (simp add: mappings_def u_def)

text \<open>
  Every file the scanner finds is \<open>content_dir/...\<close>. Stripping the characters of
  \<open>content_dir\<close> leaves the slash in front, the first piece of the split is empty, and
  the table is never hit: whatever follows the slash, the default template comes back.
\<close>

lemma get_template_name_under_content_dir:
  assumes "of_char CHR ''/'' \<notin> set content"
  shows "get_template_name (content @ of_char CHR ''/'' # rest) content dflt = dflt"
proof -
  obtain r where "py_strip content (content @ of_char CHR ''/'' # rest) = of_char CHR ''/'' # r"
    using py_strip_after_dir[OF assms] by blast
  then show ?thesis
    by (simp add: get_template_name_def map_of_mappings_empty)
qed

text \<open>
  C1. The claim: a file under \<open>blog/\<close> renders with \<open>blog.html\<close>. The code at the
  file \<open>content/blog/hello.md\<close> with the content root \<open>content\<close>: the template is
  \<open>page.html\<close>, while the test \<open>build\<close> uses to put the same file into the index
  (its stripped name starts with \<open>/blog\<close>) holds.
\<close>

theorem get_template_name_blog_post:
  "get_template_name (u ''content/blog/hello.md'') (u ''content'') (u ''page.html'') = u ''page.html''
   \<and> startswith (py_strip (u ''content'') (u ''content/blog/hello.md'')) (u ''/blog'')"
  by (simp add: get_template_name_def u_def py_strip_def py_lstrip_def py_rstrip_def
      mappings_def startswith_def)

section \<open>Configuration loading: properties\<close>

lemma merge_key_map:
  "c key = Some (Ref a) \<Longrightarrow>
   merge_key key (YMap m) (c, h) = Inr (c, h(a := dict_update (h a) m))"
  by (simp add: merge_key_def)

lemma merge_key_other:
  "\<not> is_map v \<Longrightarrow> merge_key key v (c, h) = Inr (c(key \<mapsto> Val v), h)"
  by (cases v) (simp_all add: merge_key_def)

lemma dict_update_absent: "k \<notin> fst ` set m \<Longrightarrow> dict_update d m k = d k"
  by (induction d m rule: dict_update.induct) auto

lemma dict_update_present:
  "distinct (map fst m) \<Longrightarrow> (k, v) \<in> set m \<Longrightarrow> dict_update d m k = Some v"
proof (induction d m rule: dict_update.induct)
  case (1 d)
  then show ?case by simp
next
  case (2 d k' v' kvs)
  show ?case
  proof (cases "(k, v) \<in> set kvs")
    case True
    have "distinct (map fst kvs)" using "2.prems"(1) by simp
    then have "dict_update (d(k' \<mapsto> v')) kvs k = Some v" using "2.IH" True by blast
    then show ?thesis by simp
  next
    case False
    then have "k = k'" "v = v'" using "2.prems"(2) by auto
    moreover have "k' \<notin> fst ` set kvs" using "2.prems"(1) by simp
    ultimately show ?thesis by (simp add: dict_update_absent)
  qed
qed

text \<open>
  The loop from any configuration whose section references are pairwise different, for
  a user file with each key once whose mappings all meet a section: it returns; keys
  the file does not have keep their entry and their section object; a mapping is
  written into the section object its key refers to; any other value replaces the
  entry.
\<close>

lemma merge_user_general:
  assumes "distinct (map fst uc)"
    and "\<forall>key m. (key, YMap m) \<in> set uc \<longrightarrow> (\<exists>a. c key = Some (Ref a))"
    and "\<forall>k1 k2 a. c k1 = Some (Ref a) \<longrightarrow> c k2 = Some (Ref a) \<longrightarrow> k1 = k2"
  shows "\<exists>c' h'. merge_user uc (c, h) = Inr (c', h') \<and>
           (\<forall>sec. sec \<notin> fst ` set uc \<longrightarrow>
                  c' sec = c sec \<and> (\<forall>a. c sec = Some (Ref a) \<longrightarrow> h' a = h a)) \<and>
           (\<forall>sec m a. (sec, YMap m) \<in> set uc \<longrightarrow> c sec = Some (Ref a) \<longrightarrow>
                  c' sec = Some (Ref a) \<and> h' a = dict_update (h a) m) \<and>
           (\<forall>sec v. (sec, v) \<in> set uc \<longrightarrow> \<not> is_map v \<longrightarrow> c' sec = Some (Val v))"
  using assms
proof (induction uc arbitrary: c h)
  case Nil
  then show ?case by simp
next
  case (Cons kv rest)
  obtain key v where kv: "kv = (key, v)" by (cases kv)
  have dist: "distinct (map fst rest)" and fresh: "key \<notin> fst ` set rest"
    using Cons.prems(1) kv by auto
  show ?case
  proof (cases "is_map v")
    case True
    then obtain m where v: "v = YMap m" by (cases v) auto
    obtain a where a: "c key = Some (Ref a)" using Cons.prems(2) kv v by auto
    let ?h1 = "h(a := dict_update (h a) m)"
    have step: "merge_key key v (c, h) = Inr (c, ?h1)" using a v by (simp add: merge_key_map)
    have p2: "\<forall>key m. (key, YMap m) \<in> set rest \<longrightarrow> (\<exists>a. c key = Some (Ref a))"
      using Cons.prems(2) by auto
    from Cons.IH[OF dist p2 Cons.prems(3), of ?h1]
    obtain c' h' where r: "merge_user rest (c, ?h1) = Inr (c', h')"
      and q1: "\<forall>sec. sec \<notin> fst ` set rest \<longrightarrow>
                  c' sec = c sec \<and> (\<forall>b. c sec = Some (Ref b) \<longrightarrow> h' b = ?h1 b)"
      and q2: "\<forall>sec m b. (sec, YMap m) \<in> set rest \<longrightarrow> c sec = Some (Ref b) \<longrightarrow>
                  c' sec = Some (Ref b) \<and> h' b = dict_update (?h1 b) m"
      and q3: "\<forall>sec v. (sec, v) \<in> set rest \<longrightarrow> \<not> is_map v \<longrightarrow> c' sec = Some (Val v)"
      by blast
    have other: "\<And>sec b. sec \<noteq> key \<Longrightarrow> c sec = Some (Ref b) \<Longrightarrow> ?h1 b = h b"
      using a Cons.prems(3) by auto
    have "merge_user (kv # rest) (c, h) = Inr (c', h')" using kv step r by simp
    moreover have "\<forall>sec. sec \<notin> fst ` set (kv # rest) \<longrightarrow>
                  c' sec = c sec \<and> (\<forall>b. c sec = Some (Ref b) \<longrightarrow> h' b = h b)"
      using q1 other kv by auto
    moreover have "\<forall>sec m' b. (sec, YMap m') \<in> set (kv # rest) \<longrightarrow> c sec = Some (Ref b) \<longrightarrow>
                  c' sec = Some (Ref b) \<and> h' b = dict_update (h b) m'"
    proof (intro allI impI)
      fix sec m' b
      assume mem: "(sec, YMap m') \<in> set (kv # rest)" and cb: "c sec = Some (Ref b)"
      show "c' sec = Some (Ref b) \<and> h' b = dict_update (h b) m'"
      proof (cases "sec = key")
        case True
        then have "(sec, YMap m') \<notin> set rest" using fresh by force
        then have "m' = m" using mem kv v by auto
        moreover have "b = a" using True a cb by simp
        ultimately show ?thesis using q1 fresh True a by auto
      next
        case False
        then have "(sec, YMap m') \<in> set rest" using mem kv by auto
        then show ?thesis using q2 cb other[OF False cb] by auto
      qed
    qed
    moreover have "\<forall>sec w. (sec, w) \<in> set (kv # rest) \<longrightarrow> \<not> is_map w \<longrightarrow> c' sec = Some (Val w)"
      using q3 kv True by auto
    ultimately show ?thesis by blast
  next
    case False
    let ?c1 = "c(key \<mapsto> Val v)"
    have step: "merge_key key v (c, h) = Inr (?c1, h)" using False by (simp add: merge_key_other)
    have p2: "\<forall>k m. (k, YMap m) \<in> set rest \<longrightarrow> (\<exists>a. ?c1 k = Some (Ref a))"
      using Cons.prems(2) fresh by force
    have p3: "\<forall>k1 k2 a. ?c1 k1 = Some (Ref a) \<longrightarrow> ?c1 k2 = Some (Ref a) \<longrightarrow> k1 = k2"
      using Cons.prems(3) by (auto split: if_splits)
    from Cons.IH[OF dist p2 p3, of h]
    obtain c' h' where r: "merge_user rest (?c1, h) = Inr (c', h')"
      and q1: "\<forall>sec. sec \<notin> fst ` set rest \<longrightarrow>
                  c' sec = ?c1 sec \<and> (\<forall>b. ?c1 sec = Some (Ref b) \<longrightarrow> h' b = h b)"
      and q2: "\<forall>sec m b. (sec, YMap m) \<in> set rest \<longrightarrow> ?c1 sec = Some (Ref b) \<longrightarrow>
                  c' sec = Some (Ref b) \<and> h' b = dict_update (h b) m"
      and q3: "\<forall>sec v. (sec, v) \<in> set rest \<longrightarrow> \<not> is_map v \<longrightarrow> c' sec = Some (Val v)"
      by blast
    have "merge_user (kv # rest) (c, h) = Inr (c', h')" using kv step r by simp
    moreover have "\<forall>sec. sec \<notin> fst ` set (kv # rest) \<longrightarrow>
                  c' sec = c sec \<and> (\<forall>b. c sec = Some (Ref b) \<longrightarrow> h' b = h b)"
      using q1 kv by auto
    moreover have "\<forall>sec m' b. (sec, YMap m') \<in> set (kv # rest) \<longrightarrow> c sec = Some (Ref b) \<longrightarrow>
                  c' sec = Some (Ref b) \<and> h' b = dict_update (h b) m'"
    proof (intro allI impI)
      fix sec m' b
      assume mem: "(sec, YMap m') \<in> set (kv # rest)" and cb: "c sec = Some (Ref b)"
      have "(sec, YMap m') \<in> set rest" using mem kv False by auto
      moreover from this have "sec \<noteq> key" using fresh by force
      ultimately show "c' sec = Some (Ref b) \<and> h' b = dict_update (h b) m'"
        using q2 cb by auto
    qed
    moreover have "\<forall>sec w. (sec, w) \<in> set (kv # rest) \<longrightarrow> \<not> is_map w \<longrightarrow> c' sec = Some (Val w)"
    proof (intro allI impI)
      fix sec w
      assume mem: "(sec, w) \<in> set (kv # rest)" and nm: "\<not> is_map w"
      show "c' sec = Some (Val w)"
      proof (cases "(sec, w) \<in> set rest")
        case True
        then show ?thesis using q3 nm by blast
      next
        case False
        then have "sec = key" "w = v" using mem kv by auto
        then show ?thesis using q1 fresh by auto
      qed
    qed
    ultimately show ?thesis by blast
  qed
qed

lemma DEFAULT_CONFIG_refs:
  "DEFAULT_CONFIG k = Some e \<Longrightarrow> \<exists>a. e = Ref a"
  by (auto simp: DEFAULT_CONFIG_def split: if_splits)

lemma DEFAULT_CONFIG_inj:
  "DEFAULT_CONFIG k1 = Some (Ref a) \<Longrightarrow> DEFAULT_CONFIG k2 = Some (Ref a) \<Longrightarrow> k1 = k2"
  by (auto simp: DEFAULT_CONFIG_def split: if_splits)

text \<open>
  C2, as amended. For a user file with each top-level key once, whose mapping-valued
  keys all name built-in sections (any other mapping-valued key raises \<open>KeyError\<close>),
  \<open>load_config\<close> in a fresh process returns a configuration in which
  \<^item> a section the file does not have reads as the defaults do;
  \<^item> in a section the file gives as a mapping, a key that mapping does not have reads as
    the defaults do, and a key it has reads as the file's value;
  \<^item> a top-level key the file gives as anything but a mapping holds the file's value in
    place of the default section.
\<close>

theorem load_config_merge:
  assumes keys: "distinct (map fst user_config)"
    and sections: "\<forall>key m. (key, YMap m) \<in> set user_config \<longrightarrow> key \<in> dom DEFAULT_CONFIG"
  shows "\<exists>ch. load_config initial_heap (Some user_config) = Inr ch \<and>
           (\<forall>sec key. sec \<notin> fst ` set user_config \<longrightarrow>
              getitem2 ch sec key = getitem2 (DEFAULT_CONFIG, initial_heap) sec key) \<and>
           (\<forall>sec m key. (sec, YMap m) \<in> set user_config \<longrightarrow> key \<notin> fst ` set m \<longrightarrow>
              getitem2 ch sec key = getitem2 (DEFAULT_CONFIG, initial_heap) sec key) \<and>
           (\<forall>sec m key v. (sec, YMap m) \<in> set user_config \<longrightarrow> distinct (map fst m) \<longrightarrow>
              (key, v) \<in> set m \<longrightarrow> getitem2 ch sec key = Inr v) \<and>
           (\<forall>sec v. (sec, v) \<in> set user_config \<longrightarrow> \<not> is_map v \<longrightarrow> fst ch sec = Some (Val v))"
proof -
  have p2: "\<forall>key m. (key, YMap m) \<in> set user_config \<longrightarrow> (\<exists>a. DEFAULT_CONFIG key = Some (Ref a))"
    using sections DEFAULT_CONFIG_refs by (metis domD)
  have p3: "\<forall>k1 k2 a. DEFAULT_CONFIG k1 = Some (Ref a) \<longrightarrow> DEFAULT_CONFIG k2 = Some (Ref a) \<longrightarrow> k1 = k2"
    using DEFAULT_CONFIG_inj by blast
  from merge_user_general[OF keys p2 p3, of initial_heap]
  obtain c' h' where r: "merge_user user_config (DEFAULT_CONFIG, initial_heap) = Inr (c', h')"
    and q1: "\<forall>sec. sec \<notin> fst ` set user_config \<longrightarrow>
                c' sec = DEFAULT_CONFIG sec \<and> (\<forall>a. DEFAULT_CONFIG sec = Some (Ref a) \<longrightarrow> h' a = initial_heap a)"
    and q2: "\<forall>sec m a. (sec, YMap m) \<in> set user_config \<longrightarrow> DEFAULT_CONFIG sec = Some (Ref a) \<longrightarrow>
                c' sec = Some (Ref a) \<and> h' a = dict_update (initial_heap a) m"
    and q3: "\<forall>sec v. (sec, v) \<in> set user_config \<longrightarrow> \<not> is_map v \<longrightarrow> c' sec = Some (Val v)"
    by blast
  have l: "load_config initial_heap (Some user_config) = Inr (c', h')"
    by (simp add: load_config_def r)
  have a1: "\<forall>sec key. sec \<notin> fst ` set user_config \<longrightarrow>
              getitem2 (c', h') sec key = getitem2 (DEFAULT_CONFIG, initial_heap) sec key"
    using q1 by (auto simp: getitem2_def split: option.splits entry.splits)
  have a2: "\<forall>sec m key. (sec, YMap m) \<in> set user_config \<longrightarrow> key \<notin> fst ` set m \<longrightarrow>
              getitem2 (c', h') sec key = getitem2 (DEFAULT_CONFIG, initial_heap) sec key"
  proof (intro allI impI)
    fix sec m key
    assume mem: "(sec, YMap m) \<in> set user_config" and k: "key \<notin> fst ` set m"
    obtain a where a: "DEFAULT_CONFIG sec = Some (Ref a)" using p2 mem by blast
    then have "c' sec = Some (Ref a)" "h' a = dict_update (initial_heap a) m"
      using q2 mem by auto
    then show "getitem2 (c', h') sec key = getitem2 (DEFAULT_CONFIG, initial_heap) sec key"
      using a k by (simp add: getitem2_def dict_update_absent)
  qed
  have a3: "\<forall>sec m key v. (sec, YMap m) \<in> set user_config \<longrightarrow> distinct (map fst m) \<longrightarrow>
              (key, v) \<in> set m \<longrightarrow> getitem2 (c', h') sec key = Inr v"
  proof (intro allI impI)
    fix sec m key v
    assume mem: "(sec, YMap m) \<in> set user_config" and d: "distinct (map fst m)"
      and kv: "(key, v) \<in> set m"
    obtain a where a: "DEFAULT_CONFIG sec = Some (Ref a)" using p2 mem by blast
    then have "c' sec = Some (Ref a)" "h' a = dict_update (initial_heap a) m"
      using q2 mem by auto
    then show "getitem2 (c', h') sec key = Inr v"
      using dict_update_present[OF d kv] by (simp add: getitem2_def)
  qed
  show ?thesis using l a1 a2 a3 q3 by auto
qed

text \<open>The theorem at \<open>user_example\<close>: the title is the file's, the author and the
  page size are the defaults'.\<close>

theorem load_config_merge_witness:
  "distinct (map fst user_example) \<and>
   loaded_item initial_heap (Some user_example) ''site'' ''title'' = Inr (YStr ''Mine'') \<and>
   loaded_item initial_heap (Some user_example) ''site'' ''author'' = Inr (YStr ''Firstname Lastname'') \<and>
   loaded_item initial_heap (Some user_example) ''build'' ''posts_per_page'' = Inr (YInt 20)"
proof -
  have d: "distinct (map fst user_example)" by (simp add: user_example_def)
  have s: "\<forall>key m. (key, YMap m) \<in> set user_example \<longrightarrow> key \<in> dom DEFAULT_CONFIG"
    by (simp add: user_example_def DEFAULT_CONFIG_def)
  obtain ch where l: "load_config initial_heap (Some user_example) = Inr ch"
    and a1: "\<forall>sec key. sec \<notin> fst ` set user_example \<longrightarrow>
              getitem2 ch sec key = getitem2 (DEFAULT_CONFIG, initial_heap) sec key"
    and a2: "\<forall>sec m key. (sec, YMap m) \<in> set user_example \<longrightarrow> key \<notin> fst ` set m \<longrightarrow>
              getitem2 ch sec key = getitem2 (DEFAULT_CONFIG, initial_heap) sec key"
    and a3: "\<forall>sec m key v. (sec, YMap m) \<in> set user_example \<longrightarrow> distinct (map fst m) \<longrightarrow>
              (key, v) \<in> set m \<longrightarrow> getitem2 ch sec key = Inr v"
    using load_config_merge[OF d s] by blast
  have "getitem2 ch ''site'' ''title'' = Inr (YStr ''Mine'')"
    using a3[rule_format, of "''site''" "[(''title'', YStr ''Mine'')]" "''title''" "YStr ''Mine''"]
    by (simp add: user_example_def)
  moreover have "getitem2 ch ''site'' ''author'' = Inr (YStr ''Firstname Lastname'')"
    using a2[rule_format, of "''site''" "[(''title'', YStr ''Mine'')]" "''author''"]
    by (simp add: user_example_def getitem2_def DEFAULT_CONFIG_def initial_heap_def site_defaults_def)
  moreover have "getitem2 ch ''build'' ''posts_per_page'' = Inr (YInt 20)"
    using a1[rule_format, of "''build''" "''posts_per_page''"]
    by (simp add: user_example_def getitem2_def DEFAULT_CONFIG_def initial_heap_def build_defaults_def)
  ultimately show ?thesis using d l by (simp add: loaded_item_def)
qed

text \<open>
  C2 as stated fails where the file gives a section as a scalar: with \<open>site: x\<close> the
  key \<open>title\<close> of \<open>site\<close>, which the file does not have, no longer reads as its
  default; \<open>config["site"]["title"]\<close> raises \<open>TypeError\<close>.
\<close>

theorem load_config_scalar_section:
  "loaded_item initial_heap (Some [(''site'', YStr ''x'')]) ''site'' ''title'' = Inl TypeError \<and>
   loaded_item initial_heap None ''site'' ''title'' = Inr (YStr ''Firstname Lastname'')"
  by (simp add: loaded_item_def load_config_def getitem2_def DEFAULT_CONFIG_def
      initial_heap_def site_defaults_def merge_key_def)

text \<open>
  C10. After a call that merged a user file with \<open>site: {title: Mine}\<close>, a call
  that finds no file returns defaults whose site title is \<open>Mine\<close>; in a fresh process
  the same call returns the built-in title.
\<close>

theorem load_config_mutates_defaults:
  "loaded_item_after initial_heap (Some [(''site'', YMap [(''title'', YStr ''Mine'')])]) None
     ''site'' ''title'' = Inr (YStr ''Mine'') \<and>
   loaded_item initial_heap None ''site'' ''title'' = Inr (YStr ''Firstname Lastname'')"
  by (simp add: loaded_item_after_def loaded_item_def load_config_def getitem2_def
      DEFAULT_CONFIG_def initial_heap_def site_defaults_def merge_key_def)

section \<open>Tag normalisation: properties\<close>

subsection \<open>Stripping\<close>

lemma py_strip_infix: "\<exists>pre post. s = pre @ py_strip chars s @ post"
proof -
  let ?P = "\<lambda>c. c \<in> set chars"
  let ?l = "dropWhile ?P s"
  have 1: "s = takeWhile ?P s @ ?l" by simp
  have "rev ?l = takeWhile ?P (rev ?l) @ dropWhile ?P (rev ?l)" by simp
  then have "rev (rev ?l) = rev (takeWhile ?P (rev ?l) @ dropWhile ?P (rev ?l))" by simp
  then have 2: "?l = rev (dropWhile ?P (rev ?l)) @ rev (takeWhile ?P (rev ?l))"
    by (simp only: rev_rev_ident rev_append)
  have "s = takeWhile ?P s @ py_strip chars s @ rev (takeWhile ?P (rev ?l))"
    using 1 2 by (metis py_strip_def py_lstrip_def py_rstrip_def)
  then show ?thesis by blast
qed

lemma set_py_strip: "set (py_strip chars s) \<subseteq> set s"
proof -
  obtain pre post where "s = pre @ py_strip chars s @ post" using py_strip_infix by blast
  then have "set s = set pre \<union> set (py_strip chars s) \<union> set post"
    by (metis set_append sup_assoc)
  then show ?thesis by blast
qed

lemma rstrip_keeps_head:
  assumes "dropWhile P x = x"
  shows "dropWhile P (rev (dropWhile P (rev x))) = rev (dropWhile P (rev x))"
proof (cases x)
  case Nil
  then show ?thesis by simp
next
  case (Cons a r)
  then have "\<not> P a" using assms by (metis dropWhile_eq_Cons_conv)
  then show ?thesis using Cons by (simp add: dropWhile_snoc_keep)
qed

lemma py_strip_idem: "py_strip chars (py_strip chars s) = py_strip chars s"
proof -
  let ?P = "\<lambda>c. c \<in> set chars"
  let ?l = "dropWhile ?P s"
  let ?r = "rev (dropWhile ?P (rev ?l))"
  have "dropWhile ?P ?l = ?l" by simp
  then have a: "dropWhile ?P ?r = ?r" by (rule rstrip_keeps_head)
  have b: "rev (dropWhile ?P (rev ?r)) = ?r" by simp
  show ?thesis
    unfolding py_strip_def py_lstrip_def py_rstrip_def
    by (simp only: a b)
qed

lemma py_strip_fixed:
  assumes "dropWhile (\<lambda>c. c \<in> set chars) s = s"
    and "dropWhile (\<lambda>c. c \<in> set chars) (rev s) = rev s"
  shows "py_strip chars s = s"
  using assms by (simp add: py_strip_def py_lstrip_def py_rstrip_def)

subsection \<open>Hyphen runs\<close>

lemma starts_hyphen_append: "starts_hyphen xs \<Longrightarrow> starts_hyphen (xs @ ys)"
  by (cases xs) auto

lemma no_run_append: "no_run (xs @ ys) \<Longrightarrow> no_run xs \<and> no_run ys"
  by (induction xs) (auto dest: starts_hyphen_append)

lemma no_run_py_strip: "no_run s \<Longrightarrow> no_run (py_strip chars s)"
proof -
  assume ns: "no_run s"
  obtain pre post where e: "s = pre @ py_strip chars s @ post" using py_strip_infix by blast
  have "no_run (pre @ py_strip chars s @ post)" using ns e by simp
  then have "no_run (py_strip chars s @ post)" using no_run_append by blast
  then show ?thesis using no_run_append by blast
qed

subsection \<open>Collapsing separators\<close>

lemma is_sep_hyphen: "is_sep hyphen"
  by (simp add: is_sep_def)

lemma dropWhile_not_sep_head:
  "dropWhile is_sep cs = [] \<or> (\<exists>d r. dropWhile is_sep cs = d # r \<and> \<not> is_sep d)"
  by (cases "dropWhile is_sep cs") (auto dest: dropWhile_eq_Cons_conv[THEN iffD1])

lemma collapse_head_not_sep:
  "\<not> is_sep d \<Longrightarrow> collapse_seps (d # r) = d # collapse_seps r"
  by simp

lemma no_run_collapse: "no_run (collapse_seps s)"
proof (induction s rule: collapse_seps.induct)
  case 1
  then show ?case by simp
next
  case (2 c cs)
  show ?case
  proof (cases "is_sep c")
    case True
    have ih: "no_run (collapse_seps (dropWhile is_sep cs))" using 2 True by simp
    have "\<not> starts_hyphen (collapse_seps (dropWhile is_sep cs))"
      using dropWhile_not_sep_head[of cs]
    proof
      assume "dropWhile is_sep cs = []"
      then have "collapse_seps (dropWhile is_sep cs) = []" by (simp only: collapse_seps.simps)
      then show ?thesis by (simp only: starts_hyphen.simps not_False_eq_True)
    next
      assume "\<exists>d r. dropWhile is_sep cs = d # r \<and> \<not> is_sep d"
      then obtain d r where dr: "dropWhile is_sep cs = d # r" "\<not> is_sep d" by blast
      then have "d \<noteq> hyphen" using is_sep_hyphen by auto
      then show ?thesis using dr by simp
    qed
    then show ?thesis using True ih by simp
  next
    case False
    then have "c \<noteq> hyphen" using is_sep_hyphen by auto
    then show ?thesis using False 2 by simp
  qed
qed

lemma set_collapse: "set (collapse_seps s) \<subseteq> insert hyphen {c \<in> set s. \<not> is_sep c}"
proof (induction s rule: collapse_seps.induct)
  case 1
  then show ?case by simp
next
  case (2 c cs)
  show ?case
  proof (cases "is_sep c")
    case True
    have "set (dropWhile is_sep cs) \<subseteq> set cs" by (simp add: set_dropWhileD subsetI)
    then show ?thesis using True 2 by auto
  next
    case False
    then show ?thesis using 2 by auto
  qed
qed

lemma collapse_fixed:
  "no_run s \<Longrightarrow> list_all (\<lambda>c. \<not> re_space c) s \<Longrightarrow> collapse_seps s = s"
proof (induction s)
  case Nil
  then show ?case by simp
next
  case (Cons c cs)
  have ih: "collapse_seps cs = cs" using Cons by simp
  show ?case
  proof (cases "is_sep c")
    case True
    then have ch: "c = hyphen" using Cons.prems(2) by (simp add: is_sep_def)
    have "dropWhile is_sep cs = cs"
    proof (cases cs)
      case Nil
      then show ?thesis by simp
    next
      case (Cons d r)
      then have "d \<noteq> hyphen" using Cons.prems(1) ch \<open>no_run (c # cs)\<close> by simp
      moreover have "\<not> re_space d" using Cons \<open>list_all (\<lambda>c. \<not> re_space c) (c # cs)\<close> by simp
      ultimately have "\<not> is_sep d" by (simp add: is_sep_def)
      then show ?thesis using Cons by simp
    qed
    then show ?thesis using True ch ih by simp
  next
    case False
    then show ?thesis using ih by simp
  qed
qed


subsection \<open>What a slug is made of\<close>

lemma slug_char_props:
  assumes "slug_char c"
  shows "c < 128" and "lower_char c = c" and "re_word c \<or> re_space c \<or> c = hyphen"
    and "\<not> re_space c"
  using assms
  by (auto simp: slug_char_def re_word_def re_space_def hyphen_def lower_char_def)

lemma lower_char_not_upper: "\<not> (65 \<le> lower_char c \<and> lower_char c \<le> 90)"
  by (auto simp: lower_char_def)

lemma in_strip_symbols: "c \<in> set (strip_symbols s) \<Longrightarrow> c \<in> set s \<and> (re_word c \<or> re_space c \<or> c = hyphen)"
  unfolding strip_symbols_def by simp

lemma in_py_lower: "c \<in> set (py_lower s) \<Longrightarrow> \<exists>a. c = lower_char a"
  unfolding py_lower_def by auto

lemma normalize_tag_slug_chars: "list_all slug_char (normalize_tag nfkd v)"
proof -
  let ?A = "encode_ascii_ignore (nfkd v)"
  let ?C = "strip_symbols (py_lower ?A)"
  have "slug_char c" if "c \<in> set (normalize_tag nfkd v)" for c
  proof -
    have "set (normalize_tag nfkd v) \<subseteq> set (collapse_seps ?C)"
      unfolding normalize_tag_def by (rule set_py_strip)
    then have "c \<in> set (collapse_seps ?C)" using that by (rule subsetD)
    then have "c \<in> insert hyphen {c \<in> set ?C. \<not> is_sep c}"
      using set_collapse by (rule rev_subsetD)
    then have "c = hyphen \<or> (c \<in> set ?C \<and> \<not> is_sep c)" by simp
    then show ?thesis
    proof
      assume "c = hyphen"
      then show ?thesis by (simp add: slug_char_def)
    next
      assume h: "c \<in> set ?C \<and> \<not> is_sep c"
      from h have m: "c \<in> set ?C" and ns: "\<not> is_sep c" by simp_all
      from in_strip_symbols[OF m] have m2: "c \<in> set (py_lower ?A)"
        and k: "re_word c \<or> re_space c \<or> c = hyphen" by simp_all
      from ns have "\<not> re_space c" "c \<noteq> hyphen" by (simp_all add: is_sep_def)
      with k have w: "re_word c" by blast
      from in_py_lower[OF m2] obtain a where "c = lower_char a" by blast
      then have "\<not> (65 \<le> c \<and> c \<le> 90)" using lower_char_not_upper by blast
      then show ?thesis using w by (simp add: slug_char_def)
    qed
  qed
  then show ?thesis by (simp add: list_all_iff)
qed

lemma normalize_tag_no_run: "no_run (normalize_tag nfkd v)"
  unfolding normalize_tag_def by (rule no_run_py_strip) (rule no_run_collapse)

lemma filter_id_if: "list_all P s \<Longrightarrow> filter P s = s"
  by (induction s) auto

lemma map_id_if: "list_all (\<lambda>c. f c = c) s \<Longrightarrow> map f s = s"
  by (induction s) auto

lemma slug_fixed_by_stages:
  assumes sl: "list_all slug_char s" and nr: "no_run s"
  shows "collapse_seps (strip_symbols (py_lower (encode_ascii_ignore s))) = s"
proof -
  have 1: "encode_ascii_ignore s = s"
    unfolding encode_ascii_ignore_def
    by (rule filter_id_if) (use sl slug_char_props(1) in \<open>auto simp: list_all_iff\<close>)
  have 2: "py_lower s = s"
    unfolding py_lower_def
    by (rule map_id_if) (use sl slug_char_props(2) in \<open>auto simp: list_all_iff\<close>)
  have 3: "strip_symbols s = s"
    unfolding strip_symbols_def
    by (rule filter_id_if) (use sl slug_char_props(3) in \<open>auto simp: list_all_iff\<close>)
  have "list_all (\<lambda>c. \<not> re_space c) s"
    using sl slug_char_props(4) by (auto simp: list_all_iff)
  then have 4: "collapse_seps s = s" using nr by (rule collapse_fixed[rotated])
  show ?thesis by (simp only: 1 2 3 4)
qed

lemma normalize_tag_idem:
  assumes ascii: "\<forall>s. list_all (\<lambda>c. c < 128) s \<longrightarrow> nfkd s = s"
  shows "normalize_tag nfkd (normalize_tag nfkd v) = normalize_tag nfkd v"
proof -
  let ?E = "normalize_tag nfkd v"
  let ?D = "collapse_seps (strip_symbols (py_lower (encode_ascii_ignore (nfkd v))))"
  have sl: "list_all slug_char ?E" by (rule normalize_tag_slug_chars)
  then have "list_all (\<lambda>c. c < 128) ?E" using slug_char_props(1) by (auto simp: list_all_iff)
  then have n: "nfkd ?E = ?E" using ascii by blast
  have st: "collapse_seps (strip_symbols (py_lower (encode_ascii_ignore ?E))) = ?E"
    using sl normalize_tag_no_run by (rule slug_fixed_by_stages)
  have e: "?E = py_strip [hyphen, underscore] ?D" by (simp add: normalize_tag_def)
  have "normalize_tag nfkd ?E = py_strip [hyphen, underscore] ?E"
    by (simp only: normalize_tag_def[of nfkd ?E] n st)
  also have "\<dots> = py_strip [hyphen, underscore] (py_strip [hyphen, underscore] ?D)"
    using e by simp
  also have "\<dots> = py_strip [hyphen, underscore] ?D" by (rule py_strip_idem)
  finally show ?thesis using e by simp
qed

subsection \<open>Case and accents\<close>

lemma lower_char_ascii: "lower_char c < 128 \<longleftrightarrow> c < 128"
  by (auto simp: lower_char_def)

lemma lower_encode_fold:
  "py_lower (encode_ascii_ignore x) = encode_ascii_ignore (fold_case_accents x)"
proof (induction x)
  case Nil
  then show ?case by (simp add: py_lower_def encode_ascii_ignore_def fold_case_accents_def)
next
  case (Cons c x)
  have "c < 128 \<Longrightarrow> \<not> combining_mark c" by (simp add: combining_mark_def)
  then show ?case using Cons
    by (auto simp: py_lower_def encode_ascii_ignore_def fold_case_accents_def lower_char_ascii)
qed

lemma normalize_tag_via_fold:
  "normalize_tag nfkd v =
     py_strip [hyphen, underscore]
       (collapse_seps (strip_symbols (encode_ascii_ignore (fold_case_accents (nfkd v)))))"
  by (simp only: normalize_tag_def lower_encode_fold)

lemma normalize_tag_decomposed_eq:
  "fold_case_accents (nfkd s) = fold_case_accents (nfkd t) \<Longrightarrow>
   normalize_tag nfkd s = normalize_tag nfkd t"
  by (simp only: normalize_tag_via_fold)

lemma encode_nfkd_empty:
  assumes hom: "\<forall>s t. encode_ascii_ignore (nfkd (s @ t)) =
                  encode_ascii_ignore (nfkd s) @ encode_ascii_ignore (nfkd t)"
  shows "encode_ascii_ignore (nfkd []) = []"
proof -
  have "encode_ascii_ignore (nfkd ([] @ [])) =
        encode_ascii_ignore (nfkd []) @ encode_ascii_ignore (nfkd [])"
    using hom by blast
  then show ?thesis by simp
qed

lemma encode_nfkd_pointwise:
  assumes hom: "\<forall>s t. encode_ascii_ignore (nfkd (s @ t)) =
                  encode_ascii_ignore (nfkd s) @ encode_ascii_ignore (nfkd t)"
  shows "encode_ascii_ignore (nfkd s) = concat (map (\<lambda>c. encode_ascii_ignore (nfkd [c])) s)"
proof (induction s)
  case Nil
  then show ?case using encode_nfkd_empty[OF hom] by simp
next
  case (Cons c s)
  have "encode_ascii_ignore (nfkd ([c] @ s)) =
        encode_ascii_ignore (nfkd [c]) @ encode_ascii_ignore (nfkd s)"
    using hom by blast
  then show ?case using Cons by simp
qed

lemma lower_char_eq_cases:
  assumes "lower_char a = lower_char b"
  shows "a = b \<or> (a < 128 \<and> b < 128)"
  using assms by (auto simp: lower_char_def split: if_splits)

lemma lowered_pointwise_eq:
  assumes ascii: "\<forall>s. list_all (\<lambda>c. c < 128) s \<longrightarrow> nfkd s = s"
    and "map lower_char x = map lower_char y"
  shows "py_lower (concat (map (\<lambda>c. encode_ascii_ignore (nfkd [c])) x)) =
         py_lower (concat (map (\<lambda>c. encode_ascii_ignore (nfkd [c])) y))"
  using assms(2)
proof (induction x arbitrary: y)
  case Nil
  then show ?case by simp
next
  case (Cons a x)
  then obtain b y' where y: "y = b # y'" and ab: "lower_char a = lower_char b"
    and rest: "map lower_char x = map lower_char y'" by (cases y) auto
  have one: "c < 128 \<Longrightarrow> encode_ascii_ignore (nfkd [c]) = [c]" for c
    using ascii[rule_format, of "[c]"] by (simp add: encode_ascii_ignore_def)
  have "py_lower (encode_ascii_ignore (nfkd [a])) = py_lower (encode_ascii_ignore (nfkd [b]))"
    using lower_char_eq_cases[OF ab]
  proof
    assume "a = b"
    then show ?thesis by simp
  next
    assume "a < 128 \<and> b < 128"
    then show ?thesis using ab by (simp add: one py_lower_def)
  qed
  then show ?case using Cons.IH[OF rest] y by (simp add: py_lower_def)
qed

lemma marks_dropped:
  assumes marks: "\<forall>c. combining_mark c \<longrightarrow> encode_ascii_ignore (nfkd [c]) = []"
  shows "concat (map (\<lambda>c. encode_ascii_ignore (nfkd [c])) s) =
         concat (map (\<lambda>c. encode_ascii_ignore (nfkd [c])) (filter (\<lambda>c. \<not> combining_mark c) s))"
  using marks by (induction s) auto

lemma normalize_tag_raw_eq:
  assumes ascii: "\<forall>s. list_all (\<lambda>c. c < 128) s \<longrightarrow> nfkd s = s"
    and hom: "\<forall>s t. encode_ascii_ignore (nfkd (s @ t)) =
                  encode_ascii_ignore (nfkd s) @ encode_ascii_ignore (nfkd t)"
    and marks: "\<forall>c. combining_mark c \<longrightarrow> encode_ascii_ignore (nfkd [c]) = []"
    and eq: "fold_case_accents s = fold_case_accents t"
  shows "normalize_tag nfkd s = normalize_tag nfkd t"
proof -
  let ?g = "\<lambda>c. encode_ascii_ignore (nfkd [c])"
  let ?nm = "\<lambda>c. \<not> combining_mark c"
  have es: "encode_ascii_ignore (nfkd s) = concat (map ?g (filter ?nm s))"
    by (rule trans[OF encode_nfkd_pointwise[OF hom] marks_dropped[OF marks]])
  have et: "encode_ascii_ignore (nfkd t) = concat (map ?g (filter ?nm t))"
    by (rule trans[OF encode_nfkd_pointwise[OF hom] marks_dropped[OF marks]])
  have "map lower_char (filter ?nm s) = map lower_char (filter ?nm t)"
    using eq unfolding fold_case_accents_def .
  then have "py_lower (concat (map ?g (filter ?nm s))) = py_lower (concat (map ?g (filter ?nm t)))"
    by (rule lowered_pointwise_eq[OF ascii])
  then have "py_lower (encode_ascii_ignore (nfkd s)) = py_lower (encode_ascii_ignore (nfkd t))"
    by (simp only: es et)
  then show ?thesis by (simp only: normalize_tag_def)
qed

lemma normalize_tag_pointwise_eq:
  assumes hom: "\<forall>s t. encode_ascii_ignore (nfkd (s @ t)) =
                  encode_ascii_ignore (nfkd s) @ encode_ascii_ignore (nfkd t)"
    and rel: "list_all2 (same_ascii_letters nfkd) s t"
  shows "normalize_tag nfkd s = normalize_tag nfkd t"
proof -
  let ?g = "\<lambda>c. encode_ascii_ignore (nfkd [c])"
  have es: "encode_ascii_ignore (nfkd s) = concat (map ?g s)"
    by (rule encode_nfkd_pointwise[OF hom])
  have et: "encode_ascii_ignore (nfkd t) = concat (map ?g t)"
    by (rule encode_nfkd_pointwise[OF hom])
  have "py_lower (concat (map ?g s)) = py_lower (concat (map ?g t))"
    using rel
    by (induction s t rule: list_all2_induct) (simp_all add: py_lower_def same_ascii_letters_def)
  then have "py_lower (encode_ascii_ignore (nfkd s)) = py_lower (encode_ascii_ignore (nfkd t))"
    by (simp only: es et)
  then show ?thesis by (simp only: normalize_tag_def)
qed

subsection \<open>The sample decomposition meets what is asked of NFKD\<close>

lemma nfkd_sample_ascii: "\<forall>s. list_all (\<lambda>c. c < 128) s \<longrightarrow> nfkd_sample s = s"
proof (intro allI impI)
  fix s :: ustr
  assume "list_all (\<lambda>c. c < 128) s"
  then show "nfkd_sample s = s"
    by (induction s) (auto simp: nfkd_sample_def decomp_sample_def)
qed

lemma nfkd_sample_hom:
  "\<forall>s t. encode_ascii_ignore (nfkd_sample (s @ t)) =
          encode_ascii_ignore (nfkd_sample s) @ encode_ascii_ignore (nfkd_sample t)"
  by (simp add: nfkd_sample_def encode_ascii_ignore_def)

lemma nfkd_sample_marks:
  "\<forall>c. combining_mark c \<longrightarrow> encode_ascii_ignore (nfkd_sample [c]) = []"
  by (simp add: nfkd_sample_def decomp_sample_def combining_mark_def encode_ascii_ignore_def)

text \<open>
  C5, as amended. \<open>normalize_tag\<close> with any \<open>nfkd\<close> that behaves as NFKD does in
  three respects: it leaves an ASCII string as it is; the ASCII characters of the
  decomposition of a concatenation are those of the parts, in order (decomposition is
  per code point, and reordering moves combining marks only); and a combining
  diacritical mark decomposes into nothing ASCII. Then normalising is idempotent, and
  two tags get the same slug
  \<^item> when they agree once combining marks are dropped and \<open>A-Z\<close> is lowered;
  \<^item> when their decompositions agree in that way (an accented letter and its base
    letter);
  \<^item> when, code point by code point, their decompositions hold the same ASCII characters
    up to the case of \<open>A-Z\<close> (a letter and its other case that decompose alike, or
    that both decompose into nothing ASCII).
\<close>

theorem normalize_tag_idempotent_case_accent:
  assumes ascii: "\<forall>s. list_all (\<lambda>c. c < 128) s \<longrightarrow> nfkd s = s"
    and hom: "\<forall>s t. encode_ascii_ignore (nfkd (s @ t)) =
                  encode_ascii_ignore (nfkd s) @ encode_ascii_ignore (nfkd t)"
    and marks: "\<forall>c. combining_mark c \<longrightarrow> encode_ascii_ignore (nfkd [c]) = []"
  shows "normalize_tag nfkd (normalize_tag nfkd s) = normalize_tag nfkd s \<and>
         (\<forall>t. fold_case_accents s = fold_case_accents t \<longrightarrow>
              normalize_tag nfkd s = normalize_tag nfkd t) \<and>
         (\<forall>t. fold_case_accents (nfkd s) = fold_case_accents (nfkd t) \<longrightarrow>
              normalize_tag nfkd s = normalize_tag nfkd t) \<and>
         (\<forall>t. list_all2 (same_ascii_letters nfkd) s t \<longrightarrow>
              normalize_tag nfkd s = normalize_tag nfkd t)"
proof (intro conjI allI impI)
  show "normalize_tag nfkd (normalize_tag nfkd s) = normalize_tag nfkd s"
    by (rule normalize_tag_idem[OF ascii])
next
  fix t
  assume "fold_case_accents s = fold_case_accents t"
  then show "normalize_tag nfkd s = normalize_tag nfkd t"
    by (rule normalize_tag_raw_eq[OF ascii hom marks])
next
  fix t
  assume "fold_case_accents (nfkd s) = fold_case_accents (nfkd t)"
  then show "normalize_tag nfkd s = normalize_tag nfkd t"
    by (rule normalize_tag_decomposed_eq)
next
  fix t
  assume "list_all2 (same_ascii_letters nfkd) s t"
  with hom show "normalize_tag nfkd s = normalize_tag nfkd t"
    by (rule normalize_tag_pointwise_eq)
qed

lemmas norm_eval = normalize_tag_def nfkd_sample_def decomp_sample_def encode_ascii_ignore_def
        py_lower_def lower_char_def strip_symbols_def re_word_def re_space_def hyphen_def
        underscore_def is_sep_def py_strip_def py_lstrip_def py_rstrip_def u_def

text \<open>
  The theorem with the sample decomposition, at \<open>Cafe\<close> with a combining acute,
  \<open> !Bar\<close> after it: the slug is \<open>cafe-bar\<close>, normalising it again changes
  nothing, and \<open>cafe !bar\<close> and \<open>CAF\<close> with U+00C9, \<open> !bar\<close> get the same slug.
  And at \<open>mega\<close> after a capital omega: the small omega in its place gives the same
  slug, \<open>mega\<close>.
\<close>

theorem normalize_tag_witness:
  "normalize_tag nfkd_sample (normalize_tag nfkd_sample [67, 97, 102, 101, 769, 32, 33, 66, 97, 114])
     = normalize_tag nfkd_sample [67, 97, 102, 101, 769, 32, 33, 66, 97, 114] \<and>
   normalize_tag nfkd_sample [67, 97, 102, 101, 769, 32, 33, 66, 97, 114] = u ''cafe-bar'' \<and>
   normalize_tag nfkd_sample (u ''cafe !bar'') = u ''cafe-bar'' \<and>
   normalize_tag nfkd_sample [67, 65, 70, 201, 32, 33, 98, 97, 114] = u ''cafe-bar'' \<and>
   normalize_tag nfkd_sample [937, 109, 101, 103, 97] = normalize_tag nfkd_sample [969, 109, 101, 103, 97] \<and>
   normalize_tag nfkd_sample [969, 109, 101, 103, 97] = u ''mega''"
proof -
  let ?s = "[67, 97, 102, 101, 769, 32, 33, 66, 97, 114] :: ustr"
  let ?t = "u ''cafe !bar''"
  let ?w = "[67, 65, 70, 201, 32, 33, 98, 97, 114] :: ustr"
  note t = normalize_tag_idempotent_case_accent[OF nfkd_sample_ascii nfkd_sample_hom nfkd_sample_marks, of ?s]
  have f1: "fold_case_accents ?s = fold_case_accents ?t"
    by (simp add: fold_case_accents_def combining_mark_def lower_char_def u_def)
  have f2: "fold_case_accents (nfkd_sample ?s) = fold_case_accents (nfkd_sample ?w)"
    by (simp add: fold_case_accents_def combining_mark_def lower_char_def nfkd_sample_def decomp_sample_def)
  have v: "normalize_tag nfkd_sample ?t = u ''cafe-bar''"
    by (simp add: norm_eval)
  have i: "normalize_tag nfkd_sample (normalize_tag nfkd_sample ?s) = normalize_tag nfkd_sample ?s"
    using t by (rule conjunct1)
  have e1: "normalize_tag nfkd_sample ?s = normalize_tag nfkd_sample ?t"
    using t f1 by blast
  have e2: "normalize_tag nfkd_sample ?s = normalize_tag nfkd_sample ?w"
    using t f2 by blast
  note o = normalize_tag_idempotent_case_accent[OF nfkd_sample_ascii nfkd_sample_hom nfkd_sample_marks,
      of "[937, 109, 101, 103, 97]"]
  have f3: "list_all2 (same_ascii_letters nfkd_sample) [937, 109, 101, 103, 97] [969, 109, 101, 103, 97]"
    by (simp add: same_ascii_letters_def nfkd_sample_def decomp_sample_def encode_ascii_ignore_def
        py_lower_def)
  have e3: "normalize_tag nfkd_sample [937, 109, 101, 103, 97] = normalize_tag nfkd_sample [969, 109, 101, 103, 97]"
    using o f3 by blast
  have v3: "normalize_tag nfkd_sample [969, 109, 101, 103, 97] = u ''mega''"
    by (simp add: norm_eval)
  have c1: "normalize_tag nfkd_sample ?s = u ''cafe-bar''" using e1 v by (rule trans)
  have c2: "normalize_tag nfkd_sample ?w = u ''cafe-bar''" using e2 c1 by (simp only:)
  show ?thesis using i c1 v c2 e3 v3 by (intro conjI)
qed

text \<open>
  C5 as stated fails for letter case beyond ASCII: the upper case of the dotless i
  U+0131 is \<open>I\<close>, so the tag written with a dotless i in front of \<open>rmak\<close> and the tag
  \<open>IRMAK\<close> differ only by letter case; the dotless i has no decomposition and is
  dropped, \<open>I\<close> is kept, and the slugs are \<open>rmak\<close> and \<open>irmak\<close>.
\<close>

theorem normalize_tag_dotless_i:
  "map upper_sample [305, 114, 109, 97, 107] = u ''IRMAK'' \<and>
   map upper_sample (u ''IRMAK'') = u ''IRMAK'' \<and>
   normalize_tag nfkd_sample [305, 114, 109, 97, 107] = u ''rmak'' \<and>
   normalize_tag nfkd_sample (u ''IRMAK'') = u ''irmak''"
proof (intro conjI)
  show "map upper_sample [305, 114, 109, 97, 107] = u ''IRMAK''"
    by (simp add: upper_sample_def u_def)
  show "map upper_sample (u ''IRMAK'') = u ''IRMAK''"
    by (simp add: upper_sample_def u_def)
  show "normalize_tag nfkd_sample [305, 114, 109, 97, 107] = u ''rmak''"
    by (simp add: norm_eval)
  show "normalize_tag nfkd_sample (u ''IRMAK'') = u ''irmak''"
    by (simp add: norm_eval)
qed

section \<open>Sorting and slicing: properties\<close>

lemma py_sorted_short: "length xs < 2 \<Longrightarrow> py_sorted k r xs = xs"
proof -
  assume "length xs < 2"
  then have "xs = [] \<or> (\<exists>x. xs = [x])"
    by (cases xs) (auto simp: less_Suc_eq length_Suc_conv)
  then show ?thesis by (auto simp: py_sorted_def)
qed

lemma is_date_has_key: "is_date (date_field p) \<Longrightarrow> has_key ''date'' p"
  by (auto simp: date_field_def has_key_def split: option.splits)

lemma sort_by_date_dates:
  assumes "list_all (\<lambda>p. is_date (date_field p)) xs"
  shows "sort_by_date r xs = Inr (py_sorted (\<lambda>p. date_of (date_field p)) r xs)"
proof -
  have "list_all (has_key ''date'') xs"
    using assms is_date_has_key by (auto simp: list_all_iff)
  then show ?thesis using assms by (simp add: sort_by_date_def py_sorted_short)
qed

lemma mset_py_sorted: "mset (py_sorted k r xs) = mset xs"
  by (simp add: py_sorted_def)

lemma py_sorted_ascending: "sorted (map k (py_sorted k False xs))"
  by (simp add: py_sorted_def)

lemma py_sorted_descending: "sorted (rev (map k (py_sorted k True xs)))"
  by (simp add: py_sorted_def rev_map)

lemma py_sorted_stable: "filter (\<lambda>y. k y = c) (py_sorted k r xs) = filter (\<lambda>y. k y = c) xs"
proof (cases r)
  case True
  have "filter (\<lambda>y. k y = c) (rev (sort_key k (rev xs))) = rev (filter (\<lambda>y. k y = c) (sort_key k (rev xs)))"
    by (simp add: rev_filter)
  also have "\<dots> = rev (filter (\<lambda>y. k y = c) (rev xs))" by (simp only: sort_key_stable)
  also have "\<dots> = filter (\<lambda>y. k y = c) xs" by (simp add: rev_filter)
  finally show ?thesis using True by (simp add: py_sorted_def)
next
  case False
  then show ?thesis by (simp add: py_sorted_def sort_key_stable)
qed

lemma mset_sort_by_date: "sort_by_date r xs = Inr ys \<Longrightarrow> mset ys = mset xs"
  by (auto simp: sort_by_date_def mset_py_sorted split: if_splits)

lemma descending_take: "sorted (rev xs) \<Longrightarrow> sorted (rev (take n xs))"
proof -
  assume "sorted (rev xs)"
  then have "sorted (drop (length xs - n) (rev xs))" by (rule sorted_wrt_drop)
  then show ?thesis by (simp add: rev_take)
qed

lemma slice_to_take: "\<exists>m. slice_to n xs = take m xs"
  by (auto simp: slice_to_def)

lemma slice_to_nonneg_take:
  "0 \<le> n \<Longrightarrow> slice_to n xs = take (min (nat n) (length xs)) xs"
  by (auto simp: slice_to_def min_def)

lemma slice_to_nonneg_length: "0 \<le> n \<Longrightarrow> int (length (slice_to n xs)) \<le> n"
  by (simp add: slice_to_def)

lemma sort_key_rev_distinct:
  assumes "distinct (map f xs)"
  shows "sort_key f (rev xs) = sort_key f xs"
proof (rule map_sorted_distinct_set_unique[where f = f])
  have inj: "inj_on f (set xs)" and d: "distinct xs" using assms by (simp_all add: distinct_map)
  show "inj_on f (set (sort_key f (rev xs)) \<union> set (sort_key f xs))" using inj by simp
  show "sorted (map f (sort_key f (rev xs)))" by simp
  show "sorted (map f (sort_key f xs))" by simp
  show "distinct (map f (sort_key f (rev xs)))" using inj d by (simp add: distinct_map)
  show "distinct (map f (sort_key f xs))" using inj d by (simp add: distinct_map)
  show "set (sort_key f (rev xs)) = set (sort_key f xs)" by simp
qed

lemma reverse_of_descending:
  assumes "distinct (map k (filter P xs))"
  shows "rev (filter P (py_sorted k True xs)) = py_sorted k False (filter P xs)"
proof -
  have "rev (filter P (rev (sort_key k (rev xs)))) = filter P (sort_key k (rev xs))"
    by (simp add: rev_filter)
  also have "\<dots> = sort_key k (filter P (rev xs))" by (simp only: filter_sort)
  also have "\<dots> = sort_key k (rev (filter P xs))" by (simp add: rev_filter)
  also have "\<dots> = sort_key k (filter P xs)" using assms by (rule sort_key_rev_distinct)
  finally show ?thesis by (simp add: py_sorted_def)
qed

section \<open>Index pages: properties\<close>

lemmas item_eval = default_settings_def post_a_def post_b_def post_a2_def post_draft_def
  post_no_url_def post_no_title_def

text \<open>
  C7, as amended. For an index whose items all carry a datetime and a page size that is
  not negative, \<open>build_index\<close> returns the home page and the full listing; the full
  listing is the index reordered with the dates descending, and the home page holds
  its first \<open>min(posts_per_page, |index|)\<close> items, at most \<open>posts_per_page\<close>.
\<close>

theorem home_index_prefix:
  assumes dates: "list_all (\<lambda>p. is_date (date_field p)) index"
    and size: "0 \<le> posts_per_page config"
  shows "\<exists>home full H F.
           build_index config index = Inr [home, full] \<and>
           page_body home = Posts H \<and> page_body full = Posts F \<and>
           mset F = mset index \<and>
           sorted (rev (map (\<lambda>p. date_of (date_field p)) F)) \<and>
           H = take (min (nat (posts_per_page config)) (length index)) F \<and>
           int (length H) \<le> posts_per_page config"
proof -
  let ?F = "py_sorted (\<lambda>p. date_of (date_field p)) True index"
  let ?H = "slice_to (posts_per_page config) ?F"
  have s: "sort_by_date True index = Inr ?F" using dates by (rule sort_by_date_dates)
  have len: "length ?F = length index" by (metis mset_py_sorted size_mset)
  have h1: "?H = take (min (nat (posts_per_page config)) (length index)) ?F"
    using slice_to_nonneg_take[OF size, of ?F] by (simp only: len)
  have h2: "int (length ?H) \<le> posts_per_page config"
    using size by (rule slice_to_nonneg_length)
  have "build_index config index =
          Inr [\<lparr>page_dir = Path (output_dir config),
                page_template = u ''index.html'',
                page_title = site_title config,
                page_subtitle = u ''Latest posts...'',
                page_body = Posts ?H\<rparr>,
               \<lparr>page_dir = Join (Path (output_dir config)) (Path (u ''blog'')),
                page_template = u ''index.html'',
                page_title = site_title config,
                page_subtitle = site_title config @ u ''. All of it.'',
                page_body = Posts ?F\<rparr>]"
    by (simp add: build_index_def s)
  moreover have "mset ?F = mset index" by (rule mset_py_sorted)
  moreover have "sorted (rev (map (\<lambda>p. date_of (date_field p)) ?F))" by (rule py_sorted_descending)
  ultimately show ?thesis using h1 h2 by (metis page.select_convs(5))
qed

text \<open>The theorem at three posts and a page size of two.\<close>

theorem home_index_prefix_witness:
  "list_all (\<lambda>p. is_date (date_field p)) [post_a, post_b, post_a2] \<and>
   map_sum id (map page_body)
     (build_index (default_settings\<lparr>posts_per_page := 2\<rparr>) [post_a, post_b, post_a2])
     = Inr [Posts [post_b, post_a], Posts [post_b, post_a, post_a2]]"
proof -
  let ?cfg = "default_settings\<lparr>posts_per_page := 2\<rparr>"
  let ?idx = "[post_a, post_b, post_a2]"
  have d: "list_all (\<lambda>p. is_date (date_field p)) ?idx"
    by (simp add: item_eval date_field_def)
  have n: "0 \<le> posts_per_page ?cfg" by (simp add: default_settings_def)
  from home_index_prefix[OF d n]
  obtain home full H F where b: "build_index ?cfg ?idx = Inr [home, full]"
    and ph: "page_body home = Posts H" and pf: "page_body full = Posts F"
    and H: "H = take (min (nat (posts_per_page ?cfg)) (length ?idx)) F"
    by blast
  have F: "sort_by_date True ?idx = Inr [post_b, post_a, post_a2]"
    by (simp add: sort_by_date_def py_sorted_def has_key_def date_field_def dt_key_def item_eval)
  have "build_index ?cfg ?idx = Inr [home, full] \<and> page_body full = Posts [post_b, post_a, post_a2]"
    using b by (auto simp: build_index_def F)
  then have "F = [post_b, post_a, post_a2]" using pf by simp
  then have "H = [post_b, post_a]" using H by (simp add: default_settings_def)
  then show ?thesis using d b ph pf \<open>F = [post_b, post_a, post_a2]\<close> by simp
qed

text \<open>
  C7 as stated fails for a negative page size, which \<open>index[:posts_per_page]\<close> reads
  from the end: with \<open>posts_per_page: -1\<close> and two posts the home page holds one
  post, more than \<open>posts_per_page\<close>.
\<close>

theorem home_index_negative_page_size:
  "list_all (\<lambda>p. is_date (date_field p)) [post_a, post_b] \<and>
   posts_per_page (default_settings\<lparr>posts_per_page := - 1\<rparr>) = - 1 \<and>
   map_sum id (map page_body)
     (build_index (default_settings\<lparr>posts_per_page := - 1\<rparr>) [post_a, post_b])
     = Inr [Posts [post_b], Posts [post_b, post_a]]"
  by (simp add: build_index_def sort_by_date_def py_sorted_def has_key_def date_field_def
      dt_key_def slice_to_def item_eval)

section \<open>Feeds and sitemap: properties\<close>

text \<open>The loop makes one entry from each post and leaves them on the feed latest
  first, in front of what the feed held.\<close>

lemma feed_entries_acc:
  "feed_entries config items fg = Inr fes \<Longrightarrow>
   \<exists>es. list_all2 (\<lambda>p fe. feed_entry_of config p = Inr fe) items es \<and> fes = rev es @ fg"
proof (induction items arbitrary: fg)
  case Nil
  then show ?case by simp
next
  case (Cons p items)
  then obtain fe where e: "feed_entry_of config p = Inr fe"
    and r: "feed_entries config items (add_entry fe fg) = Inr fes"
    by (auto split: sum.splits)
  from Cons.IH[OF r] obtain es
    where a: "list_all2 (\<lambda>p fe. feed_entry_of config p = Inr fe) items es"
      and f: "fes = rev es @ add_entry fe fg" by blast
  have "list_all2 (\<lambda>p fe. feed_entry_of config p = Inr fe) (p # items) (fe # es)"
    using e a by simp
  moreover have "fes = rev (fe # es) @ fg" using f by (simp add: add_entry_def)
  ultimately show ?case by blast
qed

lemma feed_entry_pubdate:
  "feed_entry_of config p = Inr fe \<Longrightarrow> fe_pubdate fe = date_field p"
  by (auto simp: feed_entry_of_def date_field_def split: option.splits pyval.splits)

lemma entries_pubdates:
  "list_all2 (\<lambda>p fe. feed_entry_of config p = Inr fe) items es \<Longrightarrow>
   map fe_pubdate es = map date_field items"
  by (induction items es rule: list_all2_induct) (auto simp: feed_entry_pubdate)

lemma build_feeds_items:
  assumes "build_feeds config index = Inr (Some fes)"
  shows "\<exists>items es. sort_by_date False (filter (\<lambda>p. \<not> is_draft p) index) = Inr items \<and>
                 list_all2 (\<lambda>p fe. feed_entry_of config p = Inr fe) items es \<and>
                 fes = rev es"
proof -
  obtain items where s: "sort_by_date False (filter (\<lambda>p. \<not> is_draft p) index) = Inr items"
    and f: "feed_entries config items [] = Inr fes"
    using assms by (auto simp: build_feeds_def split: if_splits sum.splits)
  from feed_entries_acc[OF f] show ?thesis using s by auto
qed

lemma filter_dates:
  "list_all (\<lambda>p. is_date (date_field p)) index \<Longrightarrow>
   list_all (\<lambda>p. is_date (date_field p)) (filter P index)"
  by (simp add: list_all_iff)

text \<open>
  C8, as amended. For an index whose items all carry a datetime and on which
  \<open>build_feeds\<close> returns a feed: the home page and the full listing have their dates
  descending; the posts that are not drafts are sorted with their dates ascending and
  added in that order, each to the front of the feed, so the feed holds them in the
  reverse of that order and its dates are descending as well; and when the dates of the
  posts that are not drafts are pairwise different, the feed is made of the full
  listing's non-draft posts in the listing's own order.
\<close>

theorem feed_newest_first_as_listing:
  assumes dates: "list_all (\<lambda>p. is_date (date_field p)) index"
    and feed: "build_feeds config index = Inr (Some fes)"
  shows "\<exists>home full H F items.
           build_index config index = Inr [home, full] \<and>
           page_body home = Posts H \<and> page_body full = Posts F \<and>
           sorted (rev (map (\<lambda>p. date_of (date_field p)) H)) \<and>
           sorted (rev (map (\<lambda>p. date_of (date_field p)) F)) \<and>
           sort_by_date False (filter (\<lambda>p. \<not> is_draft p) index) = Inr items \<and>
           sorted (map (\<lambda>p. date_of (date_field p)) items) \<and>
           list_all2 (\<lambda>p fe. feed_entry_of config p = Inr fe) (rev items) fes \<and>
           sorted (rev (map (\<lambda>fe. date_of (fe_pubdate fe)) fes)) \<and>
           (distinct (map (\<lambda>p. date_of (date_field p)) (filter (\<lambda>p. \<not> is_draft p) index)) \<longrightarrow>
              list_all2 (\<lambda>p fe. feed_entry_of config p = Inr fe)
                (filter (\<lambda>p. \<not> is_draft p) F) fes)"
proof -
  let ?k = "\<lambda>p. date_of (date_field p)"
  let ?nd = "\<lambda>p. \<not> is_draft p"
  let ?P = "\<lambda>p fe. feed_entry_of config p = Inr fe"
  let ?F = "py_sorted ?k True index"
  let ?H = "slice_to (posts_per_page config) ?F"
  let ?items = "py_sorted ?k False (filter ?nd index)"
  have s: "sort_by_date True index = Inr ?F" using dates by (rule sort_by_date_dates)
  have si: "sort_by_date False (filter ?nd index) = Inr ?items"
    using filter_dates[OF dates] by (rule sort_by_date_dates)
  obtain es where a: "list_all2 ?P ?items es" and fr: "fes = rev es"
    using build_feeds_items[OF feed] si by auto
  have a2: "list_all2 ?P (rev ?items) fes" using a fr by (simp only: list_all2_rev)
  have b: "build_index config index =
          Inr [\<lparr>page_dir = Path (output_dir config),
                page_template = u ''index.html'',
                page_title = site_title config,
                page_subtitle = u ''Latest posts...'',
                page_body = Posts ?H\<rparr>,
               \<lparr>page_dir = Join (Path (output_dir config)) (Path (u ''blog'')),
                page_template = u ''index.html'',
                page_title = site_title config,
                page_subtitle = site_title config @ u ''. All of it.'',
                page_body = Posts ?F\<rparr>]"
    by (simp add: build_index_def s)
  have pages: "\<exists>home full. build_index config index = Inr [home, full] \<and>
                 page_body home = Posts ?H \<and> page_body full = Posts ?F"
    using b by (metis page.select_convs(5))
  have dF: "sorted (rev (map ?k ?F))" by (rule py_sorted_descending)
  obtain m where m: "?H = take m ?F" using slice_to_take by blast
  have "sorted (rev (take m (map ?k ?F)))" using dF by (rule descending_take)
  then have dH: "sorted (rev (map ?k ?H))" by (simp only: m take_map)
  have asc: "sorted (map ?k ?items)" by (rule py_sorted_ascending)
  have "map (\<lambda>fe. date_of (fe_pubdate fe)) es = map date_of (map fe_pubdate es)" by simp
  also have "\<dots> = map date_of (map date_field ?items)"
    by (simp only: entries_pubdates[OF a])
  also have "\<dots> = map ?k ?items" by simp
  finally have pe: "map (\<lambda>fe. date_of (fe_pubdate fe)) es = map ?k ?items" .
  have "rev (map (\<lambda>fe. date_of (fe_pubdate fe)) fes) = map (\<lambda>fe. date_of (fe_pubdate fe)) es"
    by (simp only: fr rev_map rev_rev_ident)
  then have desc: "sorted (rev (map (\<lambda>fe. date_of (fe_pubdate fe)) fes))"
    using asc by (simp only: pe)
  have same: "distinct (map ?k (filter ?nd index)) \<longrightarrow> list_all2 ?P (filter ?nd ?F) fes"
  proof
    assume "distinct (map ?k (filter ?nd index))"
    then have "rev (filter ?nd ?F) = ?items" by (rule reverse_of_descending)
    then have "rev (rev (filter ?nd ?F)) = rev ?items" by (rule arg_cong)
    then have "filter ?nd ?F = rev ?items" by (simp only: rev_rev_ident)
    then show "list_all2 ?P (filter ?nd ?F) fes" using a2 by (simp only:)
  qed
  from pages obtain home full where "build_index config index = Inr [home, full]"
    "page_body home = Posts ?H" "page_body full = Posts ?F" by blast
  then show ?thesis using dH dF si asc a2 desc same by blast
qed

lemmas feed_eval = build_feeds_def sort_by_date_def py_sorted_def has_key_def date_field_def
  dt_key_def feed_entry_of_def is_draft_def add_entry_def

text \<open>
  The theorem at two posts of different days and a draft: the feed holds the later post
  first, as the listing does. And two posts of one day come in the feed in the reverse
  of the order they were found in.
\<close>

theorem feed_newest_first_as_listing_witness:
  "list_all (\<lambda>p. is_date (date_field p)) [post_a, post_draft, post_b] \<and>
   (\<exists>fes. build_feeds default_settings [post_a, post_draft, post_b] = Inr (Some fes) \<and>
          map fe_title fes = [PStr (u ''B''), PStr (u ''A'')] \<and>
          list_all2 (\<lambda>p fe. feed_entry_of default_settings p = Inr fe) [post_b, post_a] fes) \<and>
   map_sum id (map page_body) (build_index default_settings [post_a, post_draft, post_b])
     = Inr [Posts [post_draft, post_b, post_a], Posts [post_draft, post_b, post_a]] \<and>
   map_sum id (map_option (map fe_title)) (build_feeds default_settings [post_a, post_a2])
     = Inr (Some [PStr (u ''A2''), PStr (u ''A'')])"
proof -
  let ?idx = "[post_a, post_draft, post_b]"
  obtain fes where f: "build_feeds default_settings ?idx = Inr (Some fes)"
    and t: "map fe_title fes = [PStr (u ''B''), PStr (u ''A'')]"
    by (simp add: feed_eval item_eval)
  have d: "list_all (\<lambda>p. is_date (date_field p)) ?idx"
    by (simp add: item_eval date_field_def)
  have dd: "distinct (map (\<lambda>p. date_of (date_field p)) (filter (\<lambda>p. \<not> is_draft p) ?idx))"
    by (simp add: item_eval date_field_def is_draft_def dt_key_def)
  have F: "sort_by_date True ?idx = Inr [post_draft, post_b, post_a]"
    by (simp add: sort_by_date_def py_sorted_def has_key_def date_field_def dt_key_def item_eval)
  from feed_newest_first_as_listing[OF d f]
  obtain home full H F where b: "build_index default_settings ?idx = Inr [home, full]"
    and pf: "page_body full = Posts F"
    and rv: "distinct (map (\<lambda>p. date_of (date_field p)) (filter (\<lambda>p. \<not> is_draft p) ?idx)) \<longrightarrow>
              list_all2 (\<lambda>p fe. feed_entry_of default_settings p = Inr fe)
                (filter (\<lambda>p. \<not> is_draft p) F) fes"
    by blast
  have bb: "map_sum id (map page_body) (build_index default_settings ?idx)
     = Inr [Posts [post_draft, post_b, post_a], Posts [post_draft, post_b, post_a]]"
    by (simp add: build_index_def F slice_to_def default_settings_def)
  then have Fv: "F = [post_draft, post_b, post_a]" using b pf by simp
  have nd: "filter (\<lambda>p. \<not> is_draft p) [post_draft, post_b, post_a] = [post_b, post_a]"
    by (simp add: is_draft_def item_eval)
  have l: "list_all2 (\<lambda>p fe. feed_entry_of default_settings p = Inr fe) [post_b, post_a] fes"
    using rv dd by (simp only: Fv nd)
  have tie: "map_sum id (map_option (map fe_title)) (build_feeds default_settings [post_a, post_a2])
     = Inr (Some [PStr (u ''A2''), PStr (u ''A'')])"
    by (simp add: feed_eval item_eval)
  have ex: "\<exists>fes. build_feeds default_settings ?idx = Inr (Some fes) \<and>
          map fe_title fes = [PStr (u ''B''), PStr (u ''A'')] \<and>
          list_all2 (\<lambda>p fe. feed_entry_of default_settings p = Inr fe) [post_b, post_a] fes"
  proof (intro exI conjI)
    show "build_feeds default_settings ?idx = Inr (Some fes)" by (rule f)
    show "map fe_title fes = [PStr (u ''B''), PStr (u ''A'')]" by (rule t)
    show "list_all2 (\<lambda>p fe. feed_entry_of default_settings p = Inr fe) [post_b, post_a] fes"
      by (rule l)
  qed
  show ?thesis using d ex bb tie by (intro conjI)
qed

text \<open>
  C8 as stated fails on the feed that is written: for two posts of different days the
  feed holds the later one first, so its dates are descending, and its order is the
  listing's order, not the reverse of it.
\<close>

theorem feed_newest_first:
  "list_all (\<lambda>p. is_date (date_field p)) [post_a, post_b] \<and>
   \<not> is_draft post_a \<and> \<not> is_draft post_b \<and>
   map_sum id (map_option (map fe_pubdate)) (build_feeds default_settings [post_a, post_b])
     = Inr (Some [PDate (DT 2024 2 6 0), PDate (DT 2024 1 5 0)]) \<and>
   map_sum id (map_option (map fe_title)) (build_feeds default_settings [post_a, post_b])
     = Inr (Some [PStr (u ''B''), PStr (u ''A'')]) \<and>
   map_sum id (map page_body) (build_index default_settings [post_a, post_b])
     = Inr [Posts [post_b, post_a], Posts [post_b, post_a]]"
  by (simp add: build_index_def slice_to_def feed_eval item_eval)

lemma build_sitemap_skips_drafts:
  "build_sitemap config index = build_sitemap config (filter (\<lambda>p. \<not> is_draft p) index)"
  by (induction index) (auto split: option.splits pyval.splits sum.splits)

lemma build_feeds_skips_drafts:
  "build_feeds config index = build_feeds config (filter (\<lambda>p. \<not> is_draft p) index)"
  by (simp add: build_feeds_def)

lemma build_sitemap_from:
  "build_sitemap config index = Inr urls \<Longrightarrow>
   list_all2 sitemap_url_from (filter (\<lambda>p. \<not> is_draft p) index) urls"
proof (induction index arbitrary: urls)
  case Nil
  then show ?case by simp
next
  case (Cons p index)
  show ?case
  proof (cases "is_draft p")
    case True
    then show ?thesis using Cons by simp
  next
    case False
    then obtain url d rest where u: "map_of p ''url'' = Some url"
      and dt: "map_of p ''date'' = Some (PDate d)"
      and r: "build_sitemap config index = Inr rest"
      and e: "urls = \<lparr>loc_site = site_url config, loc_url = url, lastmod = strftime_Y_m_d d\<rparr> # rest"
      using Cons.prems by (auto split: option.splits pyval.splits sum.splits)
    have "sitemap_url_from p \<lparr>loc_site = site_url config, loc_url = url, lastmod = strftime_Y_m_d d\<rparr>"
      using False u dt by (simp add: sitemap_url_from_def)
    then show ?thesis using False e Cons.IH[OF r] by simp
  qed
qed

text \<open>
  C6. For every index and configuration: the entries of a feed are made one each from
  the posts that are not drafts; so are the blocks of the sitemap, in order; and both
  builders return the same, errors included, as on the index without its drafts. The
  index is any list, so it does not matter how \<open>include_drafts\<close> filled it.
\<close>

theorem drafts_absent_from_feed_and_sitemap:
  "(\<forall>fes. build_feeds config index = Inr (Some fes) \<longrightarrow>
      (\<exists>items. mset items = mset (filter (\<lambda>p. \<not> is_draft p) index) \<and>
               list_all2 (\<lambda>p fe. feed_entry_of config p = Inr fe) items fes)) \<and>
   (\<forall>urls. build_sitemap config index = Inr urls \<longrightarrow>
      list_all2 sitemap_url_from (filter (\<lambda>p. \<not> is_draft p) index) urls) \<and>
   build_feeds config index = build_feeds config (filter (\<lambda>p. \<not> is_draft p) index) \<and>
   build_sitemap config index = build_sitemap config (filter (\<lambda>p. \<not> is_draft p) index)"
proof (intro conjI allI impI)
  fix fes
  assume "build_feeds config index = Inr (Some fes)"
  then obtain items es where s: "sort_by_date False (filter (\<lambda>p. \<not> is_draft p) index) = Inr items"
    and f: "list_all2 (\<lambda>p fe. feed_entry_of config p = Inr fe) items es" and r: "fes = rev es"
    using build_feeds_items by blast
  have "mset items = mset (filter (\<lambda>p. \<not> is_draft p) index)" using s by (rule mset_sort_by_date)
  then have "mset (rev items) = mset (filter (\<lambda>p. \<not> is_draft p) index)" by simp
  moreover have "list_all2 (\<lambda>p fe. feed_entry_of config p = Inr fe) (rev items) fes"
    using f r by (simp only: list_all2_rev)
  ultimately show "\<exists>items. mset items = mset (filter (\<lambda>p. \<not> is_draft p) index) \<and>
               list_all2 (\<lambda>p fe. feed_entry_of config p = Inr fe) items fes" by blast
next
  fix urls
  assume "build_sitemap config index = Inr urls"
  then show "list_all2 sitemap_url_from (filter (\<lambda>p. \<not> is_draft p) index) urls"
    by (rule build_sitemap_from)
next
  show "build_feeds config index = build_feeds config (filter (\<lambda>p. \<not> is_draft p) index)"
    by (rule build_feeds_skips_drafts)
next
  show "build_sitemap config index = build_sitemap config (filter (\<lambda>p. \<not> is_draft p) index)"
    by (rule build_sitemap_skips_drafts)
qed


text \<open>
  The theorem where \<open>include_drafts\<close> is on: the draft is in the index that \<open>build\<close>
  collects, and the feed and the sitemap hold the other post alone.
\<close>

theorem drafts_absent_witness:
  "map_sum id snd
     (build_pages (default_settings\<lparr>include_drafts := True\<rparr>)
        [(u ''content/blog/d.md'', post_draft), (u ''content/blog/a.md'', post_a)] ([], []))
     = Inr [post_draft, post_a] \<and>
   is_draft post_draft \<and>
   map_sum id (map_option (map fe_title))
     (build_feeds (default_settings\<lparr>include_drafts := True\<rparr>) [post_draft, post_a])
     = Inr (Some [PStr (u ''A'')]) \<and>
   map_sum id (map loc_url)
     (build_sitemap (default_settings\<lparr>include_drafts := True\<rparr>) [post_draft, post_a])
     = Inr [PStr (u ''/blog/a/'')]"
proof -
  let ?cfg = "default_settings\<lparr>include_drafts := True\<rparr>"
  let ?idx = "[post_draft, post_a]"
  note t = drafts_absent_from_feed_and_sitemap[of ?cfg ?idx]
  have nd: "filter (\<lambda>p. \<not> is_draft p) ?idx = [post_a]"
    by (simp add: is_draft_def item_eval)
  have f: "build_feeds ?cfg ?idx = build_feeds ?cfg [post_a]" using t nd by simp
  have s: "build_sitemap ?cfg ?idx = build_sitemap ?cfg [post_a]" using t nd by simp
  have f1: "map_sum id (map_option (map fe_title)) (build_feeds ?cfg [post_a]) = Inr (Some [PStr (u ''A'')])"
    by (simp add: feed_eval item_eval)
  have s1: "map_sum id (map loc_url) (build_sitemap ?cfg [post_a]) = Inr [PStr (u ''/blog/a/'')]"
    by (simp add: is_draft_def item_eval)
  have p: "map_sum id snd (build_pages ?cfg
        [(u ''content/blog/d.md'', post_draft), (u ''content/blog/a.md'', post_a)] ([], []))
     = Inr [post_draft, post_a]"
    by (simp add: is_draft_def item_eval get_output_paths_def explicit_url_def alias_urls_def
        startswith_def py_strip_def py_lstrip_def py_rstrip_def u_def)
  have d: "is_draft post_draft" by (simp add: is_draft_def item_eval)
  show ?thesis using p d f s f1 s1 by simp
qed

subsection \<open>What the builders read from a post\<close>

lemma feed_entry_of_ready: "feed_entry_of config p = Inr fe \<Longrightarrow> feed_ready p"
  by (auto simp: feed_entry_of_def feed_ready_def has_key_def split: option.splits pyval.splits)

lemma feed_entries_member:
  "list_all2 (\<lambda>p fe. feed_entry_of config p = Inr fe) items es \<Longrightarrow> p \<in> set items \<Longrightarrow>
   feed_ready p"
  by (induction items es rule: list_all2_induct) (auto dest: feed_entry_of_ready)

lemma build_feeds_ready:
  assumes en: "feeds_enabled config" and ok: "build_feeds config index = Inr r"
  shows "list_all (\<lambda>p. is_draft p \<or> feed_ready p) index"
proof -
  obtain fes where "r = Some fes" using en ok
    by (auto simp: build_feeds_def split: sum.splits)
  then obtain items es where s: "sort_by_date False (filter (\<lambda>p. \<not> is_draft p) index) = Inr items"
    and f: "list_all2 (\<lambda>p fe. feed_entry_of config p = Inr fe) items es"
    using ok build_feeds_items by blast
  have "set items = set (filter (\<lambda>p. \<not> is_draft p) index)"
    using mset_sort_by_date[OF s] by (rule mset_eq_setD)
  then have "feed_ready p" if "p \<in> set index" "\<not> is_draft p" for p
    using that feed_entries_member[OF f] by simp
  then show ?thesis by (auto simp: list_all_iff)
qed

lemma build_sitemap_ready:
  "build_sitemap config index = Inr urls \<Longrightarrow> list_all (\<lambda>p. is_draft p \<or> sitemap_ready p) index"
proof (induction index arbitrary: urls)
  case Nil
  then show ?case by simp
next
  case (Cons p index)
  show ?case
  proof (cases "is_draft p")
    case True
    then show ?thesis using Cons by simp
  next
    case False
    then obtain url d rest where u: "map_of p ''url'' = Some url"
      and dt: "map_of p ''date'' = Some (PDate d)"
      and r: "build_sitemap config index = Inr rest"
      using Cons.prems by (auto split: option.splits pyval.splits sum.splits)
    have "sitemap_ready p" using u dt by (simp add: sitemap_ready_def has_key_def date_field_def)
    then show ?thesis using Cons.IH[OF r] by simp
  qed
qed

text \<open>
  C9, as amended. With feeds enabled, \<open>build_feeds\<close> returns only if every post that
  is not a draft has a string \<open>url\<close> and the keys \<open>title\<close>, \<open>html_content\<close> and
  \<open>date\<close>; \<open>build_sitemap\<close> returns only if every such post has the key \<open>url\<close>
  and a datetime \<open>date\<close>. A post without \<open>url\<close>, whose page went to the path made
  of its file's base name, makes both raise \<open>KeyError\<close>.
\<close>

theorem feed_and_sitemap_need_url:
  "(feeds_enabled config \<longrightarrow>
      (\<forall>r. build_feeds config index = Inr r \<longrightarrow> list_all (\<lambda>p. is_draft p \<or> feed_ready p) index)) \<and>
   (\<forall>urls. build_sitemap config index = Inr urls \<longrightarrow>
      list_all (\<lambda>p. is_draft p \<or> sitemap_ready p) index) \<and>
   \<not> is_draft post_no_url \<and> \<not> has_key ''url'' post_no_url \<and>
   get_output_paths (u ''docs'') post_no_url (u ''content/blog/hello.md'')
     = Inr [Join (Join (Path (u ''docs'')) (Path (u ''hello''))) (Path (u ''index.html''))] \<and>
   build_feeds default_settings [post_no_url] = Inl (KeyError ''url'') \<and>
   build_sitemap default_settings [post_no_url] = Inl (KeyError ''url'')"
proof (intro conjI allI impI)
  fix r
  assume "feeds_enabled config" "build_feeds config index = Inr r"
  then show "list_all (\<lambda>p. is_draft p \<or> feed_ready p) index" by (rule build_feeds_ready)
next
  fix urls
  assume "build_sitemap config index = Inr urls"
  then show "list_all (\<lambda>p. is_draft p \<or> sitemap_ready p) index" by (rule build_sitemap_ready)
next
  show "\<not> is_draft post_no_url" by (simp add: is_draft_def item_eval)
next
  show "\<not> has_key ''url'' post_no_url" by (simp add: has_key_def item_eval)
next
  show "get_output_paths (u ''docs'') post_no_url (u ''content/blog/hello.md'')
     = Inr [Join (Join (Path (u ''docs'')) (Path (u ''hello''))) (Path (u ''index.html''))]"
    by (simp add: get_output_paths_def explicit_url_def alias_urls_def path_stem_def
        path_name_def item_eval u_def)
next
  show "build_feeds default_settings [post_no_url] = Inl (KeyError ''url'')"
    by (simp add: feed_eval item_eval)
next
  show "build_sitemap default_settings [post_no_url] = Inl (KeyError ''url'')"
    by (simp add: is_draft_def item_eval)
qed

text \<open>The theorem where both builders return: a post with all its fields, and a draft.\<close>

theorem feed_and_sitemap_need_url_witness:
  "feeds_enabled default_settings \<and>
   map_sum id (map_option length) (build_feeds default_settings [post_a, post_draft]) = Inr (Some 1) \<and>
   map_sum id length (build_sitemap default_settings [post_a, post_draft]) = Inr 1 \<and>
   feed_ready post_a \<and> sitemap_ready post_a \<and> is_draft post_draft"
proof -
  let ?idx = "[post_a, post_draft]"
  note t = feed_and_sitemap_need_url[of default_settings ?idx]
  have en: "feeds_enabled default_settings" by (simp add: default_settings_def)
  obtain fes where f: "build_feeds default_settings ?idx = Inr (Some fes)" and l: "length fes = 1"
    by (simp add: feed_eval item_eval)
  obtain urls where s: "build_sitemap default_settings ?idx = Inr urls" and l2: "length urls = 1"
    by (simp add: is_draft_def item_eval)
  have nd: "\<not> is_draft post_a" "is_draft post_draft" by (simp_all add: is_draft_def item_eval)
  have "list_all (\<lambda>p. is_draft p \<or> feed_ready p) ?idx" using t en f by blast
  then have a: "feed_ready post_a" using nd by simp
  have "list_all (\<lambda>p. is_draft p \<or> sitemap_ready p) ?idx" using t s by blast
  then have b: "sitemap_ready post_a" using nd by simp
  show ?thesis using en f l s l2 a b nd by simp
qed

text \<open>
  C9 as stated fails for the title: \<open>build_sitemap\<close> never reads it, and with feeds
  disabled \<open>build_feeds\<close> reads nothing, so both return on a post without a title.
\<close>

theorem sitemap_without_title:
  "\<not> is_draft post_no_title \<and> \<not> has_key ''title'' post_no_title \<and>
   build_feeds (default_settings\<lparr>feeds_enabled := False\<rparr>) [post_no_title] = Inr None \<and>
   build_sitemap (default_settings\<lparr>feeds_enabled := False\<rparr>) [post_no_title]
     = Inr [\<lparr>loc_site = u ''https://blog.banderson443.me'', loc_url = PStr (u ''/blog/x/''),
             lastmod = u ''2024-01-05''\<rparr>] \<and>
   build_sitemap default_settings [post_no_title]
     = Inr [\<lparr>loc_site = u ''https://blog.banderson443.me'', loc_url = PStr (u ''/blog/x/''),
             lastmod = u ''2024-01-05''\<rparr>]"
  by (simp add: is_draft_def has_key_def build_feeds_def item_eval strftime_Y_m_d_def
      strftime_Y_def zero_pad_def u_def)

section \<open>The build on a date that did not parse, and the tag index\<close>

text \<open>
  Whatever else the index holds, one post whose date is not a datetime makes
  \<open>build_date_archives\<close> raise: no such post is skipped.
\<close>

lemma archive_posts_needs_datetime:
  "p \<in> set index \<Longrightarrow> \<not> is_date (date_field p) \<Longrightarrow> \<exists>e. archive_posts index articles = Inl e"
proof (induction index arbitrary: articles)
  case Nil
  then show ?case by simp
next
  case (Cons q index)
  show ?case
  proof (cases "map_of q ''date''")
    case None
    then show ?thesis by simp
  next
    case (Some v)
    show ?thesis
    proof (cases "is_date v")
      case False
      then show ?thesis using Some by (cases v) simp_all
    next
      case True
      then obtain d where v: "v = PDate d" by (cases v) simp_all
      have "q \<noteq> p" using True Some Cons.prems(2) by (auto simp: date_field_def)
      then have "p \<in> set index" using Cons.prems(1) by simp
      then show ?thesis using Cons.IH Cons.prems(2) Some v by simp
    qed
  qed
qed

lemma build_date_archives_needs_datetime:
  "p \<in> set index \<Longrightarrow> \<not> is_date (date_field p) \<Longrightarrow> \<exists>e. build_date_archives config index = Inl e"
  using archive_posts_needs_datetime[of p index "[]"] by (auto simp: build_date_archives_def)

text \<open>
  C3. The claim: a post whose date did not parse is listed, left out of the archives,
  and the build completes. The code at one such post under \<open>blog/\<close>, with the default
  settings: \<open>parse_front_matter\<close> leaves the date as the string it was, the index
  pages list the post, and \<open>build_date_archives\<close> raises \<open>AttributeError\<close> at
  \<open>post["date"].strftime\<close>, which ends the build.
\<close>

theorem build_aborts_on_unparsed_date:
  "map_of post_bad_date ''date'' = Some (PStr (u ''someday'')) \<and>
   map_sum id (map page_body) (build_index default_settings [post_bad_date])
     = Inr [Posts [post_bad_date], Posts [post_bad_date]] \<and>
   build_date_archives default_settings [post_bad_date] = Inl AttributeError \<and>
   build nfkd default_settings [(u ''content/blog/hello.md'', post_bad_date)] = Inl AttributeError"
proof (intro conjI)
  have p: "post_bad_date =
     [(''title'', PStr (u ''Hello'')), (''date'', PStr (u ''someday'')),
      (''url'', PStr (u ''/blog/hello/'')), (''html_content'', PStr (u ''hi''))]"
    by (simp add: post_bad_date_def get_template_context_def parse_front_matter_def
        front_matter_bad_date_def)
  show "map_of post_bad_date ''date'' = Some (PStr (u ''someday''))" by (simp add: p)
  show i: "map_sum id (map page_body) (build_index default_settings [post_bad_date])
     = Inr [Posts [post_bad_date], Posts [post_bad_date]]"
    by (simp add: build_index_def sort_by_date_def has_key_def p slice_to_def default_settings_def)
  show a: "build_date_archives default_settings [post_bad_date] = Inl AttributeError"
    by (simp add: build_date_archives_def p)
  obtain ws where pg: "build_pages default_settings [(u ''content/blog/hello.md'', post_bad_date)] ([], [])
          = Inr (ws, [post_bad_date])"
    by (simp add: is_draft_def p get_output_paths_def explicit_url_def alias_urls_def
        startswith_def py_strip_def py_lstrip_def py_rstrip_def u_def default_settings_def)
  obtain ps where ix: "build_index default_settings [post_bad_date] = Inr ps"
    by (simp add: build_index_def sort_by_date_def has_key_def p)
  obtain ts where tg: "build_tags nfkd default_settings [post_bad_date] = Inr ts"
    by (simp add: build_tags_def tag_index_def iter_tags_def p)
  show "build nfkd default_settings [(u ''content/blog/hello.md'', post_bad_date)] = Inl AttributeError"
    by (simp only: build_def pg ix tg a sum.case prod.case)
qed

text \<open>
  C4. The claim: the tag index lists the normalised tags sorted and each once. The code
  sorts and de-duplicates the tags as written and normalises them afterwards: a post
  tagged \<open>Go\<close> and \<open>go\<close> gives the tag index \<open>go\<close> twice (and the one page for
  \<open>go\<close> holds the post twice), and the tags \<open>a\<close> and \<open>B\<close> come out as \<open>b\<close>,
  \<open>a\<close>.
\<close>

theorem tag_index_keeps_duplicates:
  "map_sum id (map page_body) (build_tags nfkd_sample default_settings [post_two_tags])
     = Inr [Tags [(u ''go'', u ''/blog/tags/go/''), (u ''go'', u ''/blog/tags/go/'')],
            Posts [post_two_tags, post_two_tags]] \<and>
   tag_index nfkd_sample [[(''tags'', PList [PStr (u ''a''), PStr (u ''B'')])]]
     = Inr [u ''b'', u ''a'']"
proof -
  have n1: "normalize_tag nfkd_sample (u ''Go'') = u ''go''" by (simp add: norm_eval)
  have n2: "normalize_tag nfkd_sample (u ''go'') = u ''go''" by (simp add: norm_eval)
  have n3: "normalize_tag nfkd_sample (u ''a'') = u ''a''" by (simp add: norm_eval)
  have n4: "normalize_tag nfkd_sample (u ''B'') = u ''b''" by (simp add: norm_eval)
  have ne1: "u ''Go'' \<noteq> u ''go''" and le1: "u ''Go'' \<le> u ''go''" by (simp_all add: u_def)
  have ne2: "u ''a'' \<noteq> u ''B''" and le2: "\<not> u ''a'' \<le> u ''B''" by (simp_all add: u_def)
  have t1: "tag_index nfkd_sample [post_two_tags] = Inr [u ''go'', u ''go'']"
    by (simp add: tag_index_def iter_tags_def post_two_tags_def ne1 le1 n1 n2)
  have t2: "tag_index nfkd_sample [[(''tags'', PList [PStr (u ''a''), PStr (u ''B'')])]] = Inr [u ''b'', u ''a'']"
    by (simp add: tag_index_def iter_tags_def ne2 le2 n3 n4)
  have g: "group_posts nfkd_sample [post_two_tags] [] = Inr [(u ''go'', [post_two_tags, post_two_tags])]"
    by (simp add: iter_tags_def post_two_tags_def n1 n2)
  have b: "build_tags nfkd_sample default_settings [post_two_tags] =
      Inr (\<lparr>page_dir = Path (output_dir default_settings @ u ''/blog/tags/''),
            page_template = u ''tags.html'',
            page_title = site_title default_settings,
            page_subtitle = u ''Tags'',
            page_body = Tags (map (\<lambda>tag. (tag, u ''/blog/tags/'' @ tag @ u ''/'')) [u ''go'', u ''go''])\<rparr>
           # map (tag_page default_settings) [(u ''go'', [post_two_tags, post_two_tags])])"
    by (simp only: build_tags_def t1 g sum.case)
  have c: "map_sum id (map page_body) (build_tags nfkd_sample default_settings [post_two_tags])
     = Inr [Tags [(u ''go'', u ''/blog/tags/go/''), (u ''go'', u ''/blog/tags/go/'')],
            Posts [post_two_tags, post_two_tags]]"
    unfolding b by (simp add: tag_page_def u_def)
  show ?thesis using c t2 by (rule conjI)
qed

end
